theory Spec2Isabelle
  imports Complex_Main
begin

section \<open>Data model of \<^verbatim>\<open>matrice.cpp\<close>\<close>

text \<open>
  The C++ structures are singly linked chains that are owned exclusively by their
  parent, so a chain is a list: \<^verbatim>\<open>MatrixNode\<close> is a (column, value) cell,
  \<^verbatim>\<open>RowNode\<close> a row index with its chain of cells, \<^verbatim>\<open>SparseMatrix\<close> the two
  dimensions with the chain of rows. A \<^verbatim>\<open>RowNode*\<close> into the row chain is the
  position of the node in the list (\<open>None\<close> is \<^verbatim>\<open>nullptr\<close>).

  Modelling decisions: \<^verbatim>\<open>int\<close> indices are only ever compared, never computed with,
  so they are unbounded integers; the literal \<^verbatim>\<open>1e-10\<close> is \<open>eps\<close>. In this embedding
  the \<^verbatim>\<open>double\<close> values are real numbers. Rounding is not modelled: a sum, a difference
  or a product is the exact one, also where the code compares the rounded one with the
  threshold (in \<^verbatim>\<open>scalarMultiply\<close> and \<^verbatim>\<open>multiply\<close>, and in the values that \<^verbatim>\<open>add\<close> and
  \<^verbatim>\<open>subtract\<close> pass to \<^verbatim>\<open>insert\<close>). The infinities and NaN are not real numbers; the
  storage engine is embedded a second time, further down, over a value type that has
  them.
\<close>

record MatrixNode =
  col :: int
  "value" :: real

record RowNode =
  row :: int
  elements :: "MatrixNode list"

record SparseMatrix =
  rows :: int
  cols :: int
  rowList :: "RowNode list"

type_synonym rowptr = "nat option"

text \<open>
  The exceptions thrown by the code, with their message; \<open>null_dereference\<close> stands for
  the undefined behaviour of reading through a null \<^verbatim>\<open>RowNode*\<close>.
\<close>

datatype error = out_of_range string | invalid_argument string | null_dereference

definition eps :: real where
  "eps = 1 / 10 ^ 10"

section \<open>The chain scans\<close>

text \<open>\<^verbatim>\<open>while (current != nullptr && current->row < r)\<close>: the number of nodes passed.\<close>

fun skipRows :: "RowNode list \<Rightarrow> int \<Rightarrow> nat" where
  "skipRows [] r = 0"
| "skipRows (n # ns) r = (if row n < r then Suc (skipRows ns r) else 0)"

text \<open>\<^verbatim>\<open>while (current != nullptr && current->col < c)\<close>: the number of nodes passed.\<close>

fun skipCols :: "MatrixNode list \<Rightarrow> int \<Rightarrow> nat" where
  "skipCols [] c = 0"
| "skipCols (e # es) c = (if col e < c then Suc (skipCols es c) else 0)"

text \<open>\<^verbatim>\<open>while (current != nullptr && current->col != c)\<close>: the number of nodes passed.\<close>

fun seekCol :: "MatrixNode list \<Rightarrow> int \<Rightarrow> nat" where
  "seekCol [] c = 0"
| "seekCol (e # es) c = (if col e \<noteq> c then Suc (seekCol es c) else 0)"

text \<open>The first loop of \<^verbatim>\<open>cleanupEmptyRows\<close>: drop empty rows from the head.\<close>

fun dropEmptyHead :: "RowNode list \<Rightarrow> RowNode list" where
  "dropEmptyHead [] = []"
| "dropEmptyHead (n # ns) = (if elements n = [] then dropEmptyHead ns else n # ns)"

text \<open>The second loop of \<^verbatim>\<open>cleanupEmptyRows\<close>: unlink every empty row after \<^verbatim>\<open>prev\<close>.\<close>

fun unlinkEmpty :: "RowNode list \<Rightarrow> RowNode list" where
  "unlinkEmpty [] = []"
| "unlinkEmpty (n # ns) = (if elements n = [] then unlinkEmpty ns else n # unlinkEmpty ns)"

text \<open>
  The traversal every derived operation uses: for each row node in chain order, for each
  cell of the row in chain order, run the body on the state; an exception thrown by the
  body leaves the traversal.
\<close>

fun forEachCol :: "(MatrixNode \<Rightarrow> 's \<Rightarrow> error + 's) \<Rightarrow> MatrixNode list \<Rightarrow> 's \<Rightarrow> error + 's" where
  "forEachCol body [] s = Inr s"
| "forEachCol body (e # es) s =
     (case body e s of Inl x \<Rightarrow> Inl x | Inr s' \<Rightarrow> forEachCol body es s')"

fun forEachRow :: "(int \<Rightarrow> MatrixNode \<Rightarrow> 's \<Rightarrow> error + 's) \<Rightarrow> RowNode list \<Rightarrow> 's \<Rightarrow> error + 's" where
  "forEachRow body [] s = Inr s"
| "forEachRow body (n # ns) s =
     (case forEachCol (body (row n)) (elements n) s of
        Inl x \<Rightarrow> Inl x
      | Inr s' \<Rightarrow> forEachRow body ns s')"

section \<open>The storage engine of \<^verbatim>\<open>matrice.cpp\<close>\<close>

text \<open>\<^verbatim>\<open>rowNode->elements = es\<close> for the row node at position \<open>p\<close>.\<close>

definition setElements :: "SparseMatrix \<Rightarrow> nat \<Rightarrow> MatrixNode list \<Rightarrow> SparseMatrix" where
  "setElements m p es = m\<lparr>rowList := (rowList m)[p := (rowList m ! p)\<lparr>elements := es\<rparr>]\<rparr>"

text \<open>
  \<^verbatim>\<open>getRowNode(r, create)\<close>: the matrix afterwards (a row node may have been linked in)
  and the pointer returned.
\<close>

definition getRowNode :: "SparseMatrix \<Rightarrow> int \<Rightarrow> bool \<Rightarrow> error + (SparseMatrix \<times> rowptr)" where
  "getRowNode m r create =
     (if r < 0 \<or> r \<ge> rows m then Inl (out_of_range ''Row index out of range'')
      else if rowList m = [] \<and> create then
        Inr (m\<lparr>rowList := [\<lparr>row = r, elements = []\<rparr>]\<rparr>, Some 0)
      else if rowList m \<noteq> [] \<and> row (hd (rowList m)) > r \<and> create then
        Inr (m\<lparr>rowList := \<lparr>row = r, elements = []\<rparr> # rowList m\<rparr>, Some 0)
      else
        let p = skipRows (rowList m) r in
        if p < length (rowList m) \<and> row (rowList m ! p) = r then Inr (m, Some p)
        else if create then
          (if p = 0 then
             Inr (m\<lparr>rowList := \<lparr>row = r, elements = []\<rparr> # rowList m\<rparr>, Some 0)
           else
             Inr (m\<lparr>rowList := take p (rowList m) @ \<lparr>row = r, elements = []\<rparr> # drop p (rowList m)\<rparr>,
                  Some p))
        else Inr (m, None))"

text \<open>\<^verbatim>\<open>removeFromRow(rowNode, c)\<close>: unlinks the first cell of the row whose column is \<open>c\<close>.\<close>

definition removeFromRow :: "SparseMatrix \<Rightarrow> rowptr \<Rightarrow> int \<Rightarrow> SparseMatrix" where
  "removeFromRow m rowNode c =
     (case rowNode of
        None \<Rightarrow> m
      | Some p \<Rightarrow>
          let es = elements (rowList m ! p) in
          if es = [] then m
          else if col (hd es) = c then setElements m p (tl es)
          else
            let q = Suc (seekCol (tl es) c) in
            if q < length es then setElements m p (take q es @ drop (Suc q) es)
            else m)"

text \<open>\<^verbatim>\<open>insertIntoRow(rowNode, c, v)\<close>.\<close>

definition insertIntoRow :: "SparseMatrix \<Rightarrow> rowptr \<Rightarrow> int \<Rightarrow> real \<Rightarrow> error + SparseMatrix" where
  "insertIntoRow m rowNode c v =
     (if c < 0 \<or> c \<ge> cols m then Inl (out_of_range ''Column index out of range'')
      else if \<bar>v\<bar> < eps then Inr (removeFromRow m rowNode c)
      else
        case rowNode of
          None \<Rightarrow> Inl null_dereference
        | Some p \<Rightarrow>
            let es = elements (rowList m ! p) in
            if es = [] then Inr (setElements m p [\<lparr>col = c, value = v\<rparr>])
            else if col (hd es) > c then Inr (setElements m p (\<lparr>col = c, value = v\<rparr> # es))
            else
              let q = skipCols es c in
              if q < length es \<and> col (es ! q) = c then
                Inr (setElements m p (es[q := (es ! q)\<lparr>value := v\<rparr>]))
              else if q = 0 then Inr (setElements m p (\<lparr>col = c, value = v\<rparr> # es))
              else Inr (setElements m p (take q es @ \<lparr>col = c, value = v\<rparr> # drop q es)))"

text \<open>\<^verbatim>\<open>cleanupEmptyRows()\<close>.\<close>

definition cleanupEmptyRows :: "SparseMatrix \<Rightarrow> SparseMatrix" where
  "cleanupEmptyRows m =
     (if rowList m = [] then m
      else
        let rl = dropEmptyHead (rowList m) in
        if rl = [] then m\<lparr>rowList := []\<rparr>
        else m\<lparr>rowList := hd rl # unlinkEmpty (tl rl)\<rparr>)"

text \<open>The constructor \<^verbatim>\<open>SparseMatrix(r, c)\<close>.\<close>

definition newSparseMatrix :: "int \<Rightarrow> int \<Rightarrow> error + SparseMatrix" where
  "newSparseMatrix r c =
     (if r \<le> 0 \<or> c \<le> 0 then Inl (invalid_argument ''Matrix dimensions must be positive'')
      else Inr \<lparr>rows = r, cols = c, rowList = []\<rparr>)"

text \<open>
  \<^verbatim>\<open>insert(r, c, v)\<close> mutates the matrix and may throw: the result is the exception
  thrown, if any, and the matrix as the call leaves it.
\<close>

definition insertM :: "SparseMatrix \<Rightarrow> int \<Rightarrow> int \<Rightarrow> real \<Rightarrow> error option \<times> SparseMatrix" where
  "insertM m r c v =
     (if \<bar>v\<bar> < eps then
        (case getRowNode m r False of
           Inl e \<Rightarrow> (Some e, m)
         | Inr (m1, None) \<Rightarrow> (None, m1)
         | Inr (m1, Some p) \<Rightarrow>
             let m2 = removeFromRow m1 (Some p) c in
             if elements (rowList m2 ! p) = [] then (None, cleanupEmptyRows m2)
             else (None, m2))
      else
        (case getRowNode m r True of
           Inl e \<Rightarrow> (Some e, m)
         | Inr (m1, rowNode) \<Rightarrow>
             (case insertIntoRow m1 rowNode c v of
                Inl e \<Rightarrow> (Some e, m1)
              | Inr m2 \<Rightarrow> (None, m2))))"

text \<open>
  \<^verbatim>\<open>result.insert(r, c, v)\<close> on the local result of a derived operation: an exception
  leaves the operation and the local is gone.
\<close>

definition insertE :: "SparseMatrix \<Rightarrow> int \<Rightarrow> int \<Rightarrow> real \<Rightarrow> error + SparseMatrix" where
  "insertE m r c v = (case insertM m r c v of (None, m') \<Rightarrow> Inr m' | (Some e, m') \<Rightarrow> Inl e)"

text \<open>\<^verbatim>\<open>get(r, c)\<close>.\<close>

definition get :: "SparseMatrix \<Rightarrow> int \<Rightarrow> int \<Rightarrow> error + real" where
  "get m r c =
     (if r < 0 \<or> r \<ge> rows m \<or> c < 0 \<or> c \<ge> cols m then Inl (out_of_range ''Index out of range'')
      else
        let p = skipRows (rowList m) r in
        if p \<ge> length (rowList m) \<or> row (rowList m ! p) \<noteq> r then Inr 0
        else
          let es = elements (rowList m ! p); q = skipCols es c in
          if q \<ge> length es \<or> col (es ! q) \<noteq> c then Inr 0
          else Inr (value (es ! q)))"

text \<open>\<^verbatim>\<open>countNonZero()\<close>: one count per cell of every row.\<close>

definition countNonZero :: "SparseMatrix \<Rightarrow> int" where
  "countNonZero m = (\<Sum>n\<leftarrow>rowList m. int (length (elements n)))"

section \<open>The derived operations of \<^verbatim>\<open>matrice.cpp\<close>\<close>

text \<open>\<^verbatim>\<open>add(other)\<close>: every cell of this matrix is inserted, then every cell of the other is added on.\<close>

definition add :: "SparseMatrix \<Rightarrow> SparseMatrix \<Rightarrow> error + SparseMatrix" where
  "add this other =
     (if rows this \<noteq> rows other \<or> cols this \<noteq> cols other then
        Inl (invalid_argument ''Matrix dimensions do not match for addition'')
      else
        case newSparseMatrix (rows this) (cols this) of
          Inl x \<Rightarrow> Inl x
        | Inr result \<Rightarrow>
            (case forEachRow (\<lambda>r e res. insertE res r (col e) (value e)) (rowList this) result of
               Inl x \<Rightarrow> Inl x
             | Inr result1 \<Rightarrow>
                 forEachRow
                   (\<lambda>r e res.
                      case get res r (col e) of
                        Inl x \<Rightarrow> Inl x
                      | Inr currentValue \<Rightarrow> insertE res r (col e) (currentValue + value e))
                   (rowList other) result1))"

text \<open>\<^verbatim>\<open>subtract(other)\<close>.\<close>

definition subtract :: "SparseMatrix \<Rightarrow> SparseMatrix \<Rightarrow> error + SparseMatrix" where
  "subtract this other =
     (if rows this \<noteq> rows other \<or> cols this \<noteq> cols other then
        Inl (invalid_argument ''Matrix dimensions do not match for subtraction'')
      else
        case newSparseMatrix (rows this) (cols this) of
          Inl x \<Rightarrow> Inl x
        | Inr result \<Rightarrow>
            (case forEachRow (\<lambda>r e res. insertE res r (col e) (value e)) (rowList this) result of
               Inl x \<Rightarrow> Inl x
             | Inr result1 \<Rightarrow>
                 forEachRow
                   (\<lambda>r e res.
                      case get res r (col e) of
                        Inl x \<Rightarrow> Inl x
                      | Inr currentValue \<Rightarrow> insertE res r (col e) (currentValue - value e))
                   (rowList other) result1))"

text \<open>\<^verbatim>\<open>scalarMultiply(scalar)\<close>.\<close>

definition scalarMultiply :: "SparseMatrix \<Rightarrow> real \<Rightarrow> error + SparseMatrix" where
  "scalarMultiply this scalar =
     (case newSparseMatrix (rows this) (cols this) of
        Inl x \<Rightarrow> Inl x
      | Inr result \<Rightarrow>
          if \<bar>scalar\<bar> < eps then Inr result
          else
            forEachRow
              (\<lambda>r e res.
                 let newValue = value e * scalar in
                 if \<bar>newValue\<bar> \<ge> eps then insertE res r (col e) newValue else Inr res)
              (rowList this) result)"

text \<open>
  \<^verbatim>\<open>multiply(other)\<close>. The innermost loop accumulates \<^verbatim>\<open>sum\<close> (here \<open>acc\<close>) over the cells of
  one row of this matrix; the middle loop runs \<^verbatim>\<open>j\<close> from 0 up to the other matrix's column
  count; the outer loop runs over the stored rows of this matrix.
\<close>

fun dotRow :: "SparseMatrix \<Rightarrow> int \<Rightarrow> MatrixNode list \<Rightarrow> real \<Rightarrow> error + real" where
  "dotRow other j [] acc = Inr acc"
| "dotRow other j (e # es) acc =
     (case get other (col e) j of
        Inl x \<Rightarrow> Inl x
      | Inr val2 \<Rightarrow> dotRow other j es (if \<bar>val2\<bar> \<ge> eps then acc + value e * val2 else acc))"

function columnLoop :: "SparseMatrix \<Rightarrow> int \<Rightarrow> MatrixNode list \<Rightarrow> int \<Rightarrow> SparseMatrix \<Rightarrow> error + SparseMatrix" where
  "columnLoop other i es j result =
     (if j < cols other then
        (case dotRow other j es 0 of
           Inl x \<Rightarrow> Inl x
         | Inr acc \<Rightarrow>
             (case (if \<bar>acc\<bar> \<ge> eps then insertE result i j acc else Inr result) of
                Inl x \<Rightarrow> Inl x
              | Inr result' \<Rightarrow> columnLoop other i es (j + 1) result'))
      else Inr result)"
  by pat_completeness auto
termination
  by (relation "measure (\<lambda>(other, i, es, j, result). nat (cols other - j))") auto

declare columnLoop.simps [simp del]

fun rowLoop :: "SparseMatrix \<Rightarrow> RowNode list \<Rightarrow> SparseMatrix \<Rightarrow> error + SparseMatrix" where
  "rowLoop other [] result = Inr result"
| "rowLoop other (n # ns) result =
     (case columnLoop other (row n) (elements n) 0 result of
        Inl x \<Rightarrow> Inl x
      | Inr result' \<Rightarrow> rowLoop other ns result')"

definition multiply :: "SparseMatrix \<Rightarrow> SparseMatrix \<Rightarrow> error + SparseMatrix" where
  "multiply this other =
     (if cols this \<noteq> rows other then
        Inl (invalid_argument ''Matrix dimensions do not match for multiplication'')
      else
        case newSparseMatrix (rows this) (cols other) of
          Inl x \<Rightarrow> Inl x
        | Inr result \<Rightarrow> rowLoop other (rowList this) result)"

text \<open>\<^verbatim>\<open>transpose()\<close>.\<close>

definition transposeM :: "SparseMatrix \<Rightarrow> error + SparseMatrix" where
  "transposeM this =
     (case newSparseMatrix (cols this) (rows this) of
        Inl x \<Rightarrow> Inl x
      | Inr result \<Rightarrow>
          forEachRow (\<lambda>r e res. insertE res (col e) r (value e)) (rowList this) result)"

text \<open>
  Sequencing of calls that may throw: the first exception leaves the function.
\<close>

definition bindE :: "error + 'a \<Rightarrow> ('a \<Rightarrow> error + 'b) \<Rightarrow> error + 'b" where
  "bindE x f = (case x of Inl e \<Rightarrow> Inl e | Inr a \<Rightarrow> f a)"

text \<open>
  \<^verbatim>\<open>determinant()\<close>. The cells are read with \<^verbatim>\<open>get\<close>; the order of the reads within
  one expression is left open by the language and cannot matter, since \<^verbatim>\<open>get\<close> has no
  effect on the matrix.
\<close>

definition determinant :: "SparseMatrix \<Rightarrow> error + real" where
  "determinant m =
     (if rows m \<noteq> cols m then
        Inl (invalid_argument ''Matrix must be square to calculate determinant'')
      else if rows m = 1 then get m 0 0
      else if rows m = 2 then
        bindE (get m 0 0) (\<lambda>a. bindE (get m 1 1) (\<lambda>d.
        bindE (get m 0 1) (\<lambda>b. bindE (get m 1 0) (\<lambda>c.
        Inr (a * d - b * c)))))
      else if rows m = 3 then
        bindE (get m 0 0) (\<lambda>a. bindE (get m 0 1) (\<lambda>b. bindE (get m 0 2) (\<lambda>c.
        bindE (get m 1 0) (\<lambda>d. bindE (get m 1 1) (\<lambda>e. bindE (get m 1 2) (\<lambda>f.
        bindE (get m 2 0) (\<lambda>g. bindE (get m 2 1) (\<lambda>h. bindE (get m 2 2) (\<lambda>i.
        Inr (a * (e * i - f * h) - b * (d * i - f * g) + c * (d * h - e * g)))))))))))
      else
        Inl (invalid_argument
               ''Determinant calculation for matrices larger than 3x3 not implemented''))"

section \<open>Copying and assignment\<close>

text \<open>
  The deep copy shared by the copy constructor and \<^verbatim>\<open>operator=\<close>: a new node for
  every cell of every row, linked in the order of the original.
\<close>

fun copyElements :: "MatrixNode list \<Rightarrow> MatrixNode list" where
  "copyElements [] = []"
| "copyElements (e # es) = \<lparr>col = col e, value = value e\<rparr> # copyElements es"

fun copyRows :: "RowNode list \<Rightarrow> RowNode list" where
  "copyRows [] = []"
| "copyRows (n # ns) = \<lparr>row = row n, elements = copyElements (elements n)\<rparr> # copyRows ns"

text \<open>
  \<^verbatim>\<open>operator=\<close> compares the addresses of its two operands, so the matrices live in a
  store, at addresses. Outside the guard the steps are those of the code, each one reading
  the store the step before has left: the rows of \<^verbatim>\<open>*this\<close> are destroyed, the
  dimensions are copied, the row chain is reset, and the rows of \<^verbatim>\<open>other\<close> are copied.
\<close>

type_synonym addr = nat
type_synonym store = "addr \<Rightarrow> SparseMatrix"

definition assign :: "store \<Rightarrow> addr \<Rightarrow> addr \<Rightarrow> store" where
  "assign s this other =
     (if this \<noteq> other then
        let s1 = s(this := (s this)\<lparr>rowList := []\<rparr>);
            s2 = s1(this := (s1 this)\<lparr>rows := rows (s1 other), cols := cols (s1 other),
                                       rowList := []\<rparr>);
            s3 = s2(this := (s2 this)\<lparr>rowList := copyRows (rowList (s2 other))\<rparr>)
        in s3
      else s)"

section \<open>The test-only variant, \<^verbatim>\<open>test_matrix.cpp\<close>\<close>

text \<open>
  The second source file declares the same three structures and its own class
  \<^verbatim>\<open>SparseMatrix\<close>, without \<^verbatim>\<open>subtract\<close>, \<^verbatim>\<open>scalarDivide\<close>, \<^verbatim>\<open>determinant\<close>,
  \<^verbatim>\<open>inverse\<close> and \<^verbatim>\<open>countNonZero\<close>. Its member functions are embedded here one by one,
  from that file, under the name of the function with the suffix \<open>_t\<close>; the data
  model, the chain scans and the traversal are those above.
\<close>

text \<open>
  \<^verbatim>\<open>getRowNode(r, create)\<close>: as above.
\<close>

definition getRowNode_t :: "SparseMatrix \<Rightarrow> int \<Rightarrow> bool \<Rightarrow> error + (SparseMatrix \<times> rowptr)" where
  "getRowNode_t m r create =
     (if r < 0 \<or> r \<ge> rows m then Inl (out_of_range ''Row index out of range'')
      else if rowList m = [] \<and> create then
        Inr (m\<lparr>rowList := [\<lparr>row = r, elements = []\<rparr>]\<rparr>, Some 0)
      else if rowList m \<noteq> [] \<and> row (hd (rowList m)) > r \<and> create then
        Inr (m\<lparr>rowList := \<lparr>row = r, elements = []\<rparr> # rowList m\<rparr>, Some 0)
      else
        let p = skipRows (rowList m) r in
        if p < length (rowList m) \<and> row (rowList m ! p) = r then Inr (m, Some p)
        else if create then
          (if p = 0 then
             Inr (m\<lparr>rowList := \<lparr>row = r, elements = []\<rparr> # rowList m\<rparr>, Some 0)
           else
             Inr (m\<lparr>rowList := take p (rowList m) @ \<lparr>row = r, elements = []\<rparr> # drop p (rowList m)\<rparr>,
                  Some p))
        else Inr (m, None))"

text \<open>\<^verbatim>\<open>removeFromRow(rowNode, c)\<close>: unlinks the first cell of the row whose column is \<open>c\<close>.\<close>

definition removeFromRow_t :: "SparseMatrix \<Rightarrow> rowptr \<Rightarrow> int \<Rightarrow> SparseMatrix" where
  "removeFromRow_t m rowNode c =
     (case rowNode of
        None \<Rightarrow> m
      | Some p \<Rightarrow>
          let es = elements (rowList m ! p) in
          if es = [] then m
          else if col (hd es) = c then setElements m p (tl es)
          else
            let q = Suc (seekCol (tl es) c) in
            if q < length es then setElements m p (take q es @ drop (Suc q) es)
            else m)"

text \<open>\<^verbatim>\<open>insertIntoRow(rowNode, c, v)\<close>.\<close>

definition insertIntoRow_t :: "SparseMatrix \<Rightarrow> rowptr \<Rightarrow> int \<Rightarrow> real \<Rightarrow> error + SparseMatrix" where
  "insertIntoRow_t m rowNode c v =
     (if c < 0 \<or> c \<ge> cols m then Inl (out_of_range ''Column index out of range'')
      else if \<bar>v\<bar> < eps then Inr (removeFromRow_t m rowNode c)
      else
        case rowNode of
          None \<Rightarrow> Inl null_dereference
        | Some p \<Rightarrow>
            let es = elements (rowList m ! p) in
            if es = [] then Inr (setElements m p [\<lparr>col = c, value = v\<rparr>])
            else if col (hd es) > c then Inr (setElements m p (\<lparr>col = c, value = v\<rparr> # es))
            else
              let q = skipCols es c in
              if q < length es \<and> col (es ! q) = c then
                Inr (setElements m p (es[q := (es ! q)\<lparr>value := v\<rparr>]))
              else if q = 0 then Inr (setElements m p (\<lparr>col = c, value = v\<rparr> # es))
              else Inr (setElements m p (take q es @ \<lparr>col = c, value = v\<rparr> # drop q es)))"

text \<open>\<^verbatim>\<open>cleanupEmptyRows()\<close>.\<close>

definition cleanupEmptyRows_t :: "SparseMatrix \<Rightarrow> SparseMatrix" where
  "cleanupEmptyRows_t m =
     (if rowList m = [] then m
      else
        let rl = dropEmptyHead (rowList m) in
        if rl = [] then m\<lparr>rowList := []\<rparr>
        else m\<lparr>rowList := hd rl # unlinkEmpty (tl rl)\<rparr>)"

text \<open>The constructor \<^verbatim>\<open>SparseMatrix(r, c)\<close>.\<close>

definition newSparseMatrix_t :: "int \<Rightarrow> int \<Rightarrow> error + SparseMatrix" where
  "newSparseMatrix_t r c =
     (if r \<le> 0 \<or> c \<le> 0 then Inl (invalid_argument ''Matrix dimensions must be positive'')
      else Inr \<lparr>rows = r, cols = c, rowList = []\<rparr>)"

text \<open>
  \<^verbatim>\<open>insert(r, c, v)\<close> mutates the matrix and may throw: the result is the exception
  thrown, if any, and the matrix as the call leaves it.
\<close>

definition insertM_t :: "SparseMatrix \<Rightarrow> int \<Rightarrow> int \<Rightarrow> real \<Rightarrow> error option \<times> SparseMatrix" where
  "insertM_t m r c v =
     (if \<bar>v\<bar> < eps then
        (case getRowNode_t m r False of
           Inl e \<Rightarrow> (Some e, m)
         | Inr (m1, None) \<Rightarrow> (None, m1)
         | Inr (m1, Some p) \<Rightarrow>
             let m2 = removeFromRow_t m1 (Some p) c in
             if elements (rowList m2 ! p) = [] then (None, cleanupEmptyRows_t m2)
             else (None, m2))
      else
        (case getRowNode_t m r True of
           Inl e \<Rightarrow> (Some e, m)
         | Inr (m1, rowNode) \<Rightarrow>
             (case insertIntoRow_t m1 rowNode c v of
                Inl e \<Rightarrow> (Some e, m1)
              | Inr m2 \<Rightarrow> (None, m2))))"

text \<open>
  \<^verbatim>\<open>result.insert(r, c, v)\<close> on the local result of a derived operation: an exception
  leaves the operation and the local is gone.
\<close>

definition insertE_t :: "SparseMatrix \<Rightarrow> int \<Rightarrow> int \<Rightarrow> real \<Rightarrow> error + SparseMatrix" where
  "insertE_t m r c v = (case insertM_t m r c v of (None, m') \<Rightarrow> Inr m' | (Some e, m') \<Rightarrow> Inl e)"

text \<open>\<^verbatim>\<open>get(r, c)\<close>.\<close>

definition get_t :: "SparseMatrix \<Rightarrow> int \<Rightarrow> int \<Rightarrow> error + real" where
  "get_t m r c =
     (if r < 0 \<or> r \<ge> rows m \<or> c < 0 \<or> c \<ge> cols m then Inl (out_of_range ''Index out of range'')
      else
        let p = skipRows (rowList m) r in
        if p \<ge> length (rowList m) \<or> row (rowList m ! p) \<noteq> r then Inr 0
        else
          let es = elements (rowList m ! p); q = skipCols es c in
          if q \<ge> length es \<or> col (es ! q) \<noteq> c then Inr 0
          else Inr (value (es ! q)))"

text \<open>\<^verbatim>\<open>add(other)\<close>: every cell of this matrix is inserted, then every cell of the other is added on.\<close>

definition add_t :: "SparseMatrix \<Rightarrow> SparseMatrix \<Rightarrow> error + SparseMatrix" where
  "add_t this other =
     (if rows this \<noteq> rows other \<or> cols this \<noteq> cols other then
        Inl (invalid_argument ''Matrix dimensions do not match for addition'')
      else
        case newSparseMatrix_t (rows this) (cols this) of
          Inl x \<Rightarrow> Inl x
        | Inr result \<Rightarrow>
            (case forEachRow (\<lambda>r e res. insertE_t res r (col e) (value e)) (rowList this) result of
               Inl x \<Rightarrow> Inl x
             | Inr result1 \<Rightarrow>
                 forEachRow
                   (\<lambda>r e res.
                      case get_t res r (col e) of
                        Inl x \<Rightarrow> Inl x
                      | Inr currentValue \<Rightarrow> insertE_t res r (col e) (currentValue + value e))
                   (rowList other) result1))"

text \<open>\<^verbatim>\<open>scalarMultiply(scalar)\<close>.\<close>

definition scalarMultiply_t :: "SparseMatrix \<Rightarrow> real \<Rightarrow> error + SparseMatrix" where
  "scalarMultiply_t this scalar =
     (case newSparseMatrix_t (rows this) (cols this) of
        Inl x \<Rightarrow> Inl x
      | Inr result \<Rightarrow>
          if \<bar>scalar\<bar> < eps then Inr result
          else
            forEachRow
              (\<lambda>r e res.
                 let newValue = value e * scalar in
                 if \<bar>newValue\<bar> \<ge> eps then insertE_t res r (col e) newValue else Inr res)
              (rowList this) result)"

text \<open>
  \<^verbatim>\<open>multiply(other)\<close>. The innermost loop accumulates \<^verbatim>\<open>sum\<close> (here \<open>acc\<close>) over the cells of
  one row of this matrix; the middle loop runs \<^verbatim>\<open>j\<close> from 0 up to the other matrix's column
  count; the outer loop runs over the stored rows of this matrix.
\<close>

fun dotRow_t :: "SparseMatrix \<Rightarrow> int \<Rightarrow> MatrixNode list \<Rightarrow> real \<Rightarrow> error + real" where
  "dotRow_t other j [] acc = Inr acc"
| "dotRow_t other j (e # es) acc =
     (case get_t other (col e) j of
        Inl x \<Rightarrow> Inl x
      | Inr val2 \<Rightarrow> dotRow_t other j es (if \<bar>val2\<bar> \<ge> eps then acc + value e * val2 else acc))"

function columnLoop_t :: "SparseMatrix \<Rightarrow> int \<Rightarrow> MatrixNode list \<Rightarrow> int \<Rightarrow> SparseMatrix \<Rightarrow> error + SparseMatrix" where
  "columnLoop_t other i es j result =
     (if j < cols other then
        (case dotRow_t other j es 0 of
           Inl x \<Rightarrow> Inl x
         | Inr acc \<Rightarrow>
             (case (if \<bar>acc\<bar> \<ge> eps then insertE_t result i j acc else Inr result) of
                Inl x \<Rightarrow> Inl x
              | Inr result' \<Rightarrow> columnLoop_t other i es (j + 1) result'))
      else Inr result)"
  by pat_completeness auto
termination
  by (relation "measure (\<lambda>(other, i, es, j, result). nat (cols other - j))") auto

declare columnLoop_t.simps [simp del]

fun rowLoop_t :: "SparseMatrix \<Rightarrow> RowNode list \<Rightarrow> SparseMatrix \<Rightarrow> error + SparseMatrix" where
  "rowLoop_t other [] result = Inr result"
| "rowLoop_t other (n # ns) result =
     (case columnLoop_t other (row n) (elements n) 0 result of
        Inl x \<Rightarrow> Inl x
      | Inr result' \<Rightarrow> rowLoop_t other ns result')"

definition multiply_t :: "SparseMatrix \<Rightarrow> SparseMatrix \<Rightarrow> error + SparseMatrix" where
  "multiply_t this other =
     (if cols this \<noteq> rows other then
        Inl (invalid_argument ''Matrix dimensions do not match for multiplication'')
      else
        case newSparseMatrix_t (rows this) (cols other) of
          Inl x \<Rightarrow> Inl x
        | Inr result \<Rightarrow> rowLoop_t other (rowList this) result)"

text \<open>\<^verbatim>\<open>transpose()\<close>.\<close>

definition transposeM_t :: "SparseMatrix \<Rightarrow> error + SparseMatrix" where
  "transposeM_t this =
     (case newSparseMatrix_t (cols this) (rows this) of
        Inl x \<Rightarrow> Inl x
      | Inr result \<Rightarrow>
          forEachRow (\<lambda>r e res. insertE_t res (col e) r (value e)) (rowList this) result)"

text \<open>\<^verbatim>\<open>operator=\<close>, with the deep copy above.\<close>

definition assign_t :: "store \<Rightarrow> addr \<Rightarrow> addr \<Rightarrow> store" where
  "assign_t s this other =
     (if this \<noteq> other then
        let s1 = s(this := (s this)\<lparr>rowList := []\<rparr>);
            s2 = s1(this := (s1 this)\<lparr>rows := rows (s1 other), cols := cols (s1 other),
                                       rowList := []\<rparr>);
            s3 = s2(this := (s2 this)\<lparr>rowList := copyRows (rowList (s2 other))\<rparr>)
        in s3
      else s)"

section \<open>The storage engine over every \<^verbatim>\<open>double\<close> value\<close>

text \<open>
  The embedding above takes the stored values for real numbers. A \<^verbatim>\<open>double\<close> can also
  be an infinity or a NaN, and the threshold test of \<^verbatim>\<open>insert\<close> tells them apart from
  the numbers. This section embeds the storage engine of \<^verbatim>\<open>matrice.cpp\<close> once more,
  function for function, over a value type that has them: a finite value (as the real
  number it is), an infinity with its sign, or NaN.
\<close>

datatype double = Finite real | Infinite bool | NaN

text \<open>
  \<^verbatim>\<open>std::abs(v) < 1e-10\<close> and \<^verbatim>\<open>std::abs(v) >= 1e-10\<close>: every comparison with a NaN
  is false, an infinity is above every number.
\<close>

definition abs_lt_eps :: "double \<Rightarrow> bool" where
  "abs_lt_eps v = (case v of Finite x \<Rightarrow> \<bar>x\<bar> < eps | Infinite s \<Rightarrow> False | NaN \<Rightarrow> False)"

definition abs_ge_eps :: "double \<Rightarrow> bool" where
  "abs_ge_eps v = (case v of Finite x \<Rightarrow> \<bar>x\<bar> \<ge> eps | Infinite s \<Rightarrow> True | NaN \<Rightarrow> False)"

record MatrixNode_d =
  col_d :: int
  value_d :: double

record RowNode_d =
  row_d :: int
  elements_d :: "MatrixNode_d list"

record SparseMatrix_d =
  rows_d :: int
  cols_d :: int
  rowList_d :: "RowNode_d list"

fun skipRows_d :: "RowNode_d list \<Rightarrow> int \<Rightarrow> nat" where
  "skipRows_d [] r = 0"
| "skipRows_d (n # ns) r = (if row_d n < r then Suc (skipRows_d ns r) else 0)"

fun skipCols_d :: "MatrixNode_d list \<Rightarrow> int \<Rightarrow> nat" where
  "skipCols_d [] c = 0"
| "skipCols_d (e # es) c = (if col_d e < c then Suc (skipCols_d es c) else 0)"

fun seekCol_d :: "MatrixNode_d list \<Rightarrow> int \<Rightarrow> nat" where
  "seekCol_d [] c = 0"
| "seekCol_d (e # es) c = (if col_d e \<noteq> c then Suc (seekCol_d es c) else 0)"

fun dropEmptyHead_d :: "RowNode_d list \<Rightarrow> RowNode_d list" where
  "dropEmptyHead_d [] = []"
| "dropEmptyHead_d (n # ns) = (if elements_d n = [] then dropEmptyHead_d ns else n # ns)"

fun unlinkEmpty_d :: "RowNode_d list \<Rightarrow> RowNode_d list" where
  "unlinkEmpty_d [] = []"
| "unlinkEmpty_d (n # ns) = (if elements_d n = [] then unlinkEmpty_d ns else n # unlinkEmpty_d ns)"

definition setElements_d :: "SparseMatrix_d \<Rightarrow> nat \<Rightarrow> MatrixNode_d list \<Rightarrow> SparseMatrix_d" where
  "setElements_d m p es =
     m\<lparr>rowList_d := (rowList_d m)[p := (rowList_d m ! p)\<lparr>elements_d := es\<rparr>]\<rparr>"

text \<open>\<^verbatim>\<open>getRowNode(r, create)\<close>.\<close>

definition getRowNode_d :: "SparseMatrix_d \<Rightarrow> int \<Rightarrow> bool \<Rightarrow> error + (SparseMatrix_d \<times> rowptr)" where
  "getRowNode_d m r create =
     (if r < 0 \<or> r \<ge> rows_d m then Inl (out_of_range ''Row index out of range'')
      else if rowList_d m = [] \<and> create then
        Inr (m\<lparr>rowList_d := [\<lparr>row_d = r, elements_d = []\<rparr>]\<rparr>, Some 0)
      else if rowList_d m \<noteq> [] \<and> row_d (hd (rowList_d m)) > r \<and> create then
        Inr (m\<lparr>rowList_d := \<lparr>row_d = r, elements_d = []\<rparr> # rowList_d m\<rparr>, Some 0)
      else
        let p = skipRows_d (rowList_d m) r in
        if p < length (rowList_d m) \<and> row_d (rowList_d m ! p) = r then Inr (m, Some p)
        else if create then
          (if p = 0 then
             Inr (m\<lparr>rowList_d := \<lparr>row_d = r, elements_d = []\<rparr> # rowList_d m\<rparr>, Some 0)
           else
             Inr (m\<lparr>rowList_d :=
                     take p (rowList_d m) @ \<lparr>row_d = r, elements_d = []\<rparr> # drop p (rowList_d m)\<rparr>,
                  Some p))
        else Inr (m, None))"

text \<open>\<^verbatim>\<open>removeFromRow(rowNode, c)\<close>.\<close>

definition removeFromRow_d :: "SparseMatrix_d \<Rightarrow> rowptr \<Rightarrow> int \<Rightarrow> SparseMatrix_d" where
  "removeFromRow_d m rowNode c =
     (case rowNode of
        None \<Rightarrow> m
      | Some p \<Rightarrow>
          let es = elements_d (rowList_d m ! p) in
          if es = [] then m
          else if col_d (hd es) = c then setElements_d m p (tl es)
          else
            let q = Suc (seekCol_d (tl es) c) in
            if q < length es then setElements_d m p (take q es @ drop (Suc q) es)
            else m)"

text \<open>\<^verbatim>\<open>insertIntoRow(rowNode, c, v)\<close>.\<close>

definition insertIntoRow_d :: "SparseMatrix_d \<Rightarrow> rowptr \<Rightarrow> int \<Rightarrow> double \<Rightarrow> error + SparseMatrix_d" where
  "insertIntoRow_d m rowNode c v =
     (if c < 0 \<or> c \<ge> cols_d m then Inl (out_of_range ''Column index out of range'')
      else if abs_lt_eps v then Inr (removeFromRow_d m rowNode c)
      else
        case rowNode of
          None \<Rightarrow> Inl null_dereference
        | Some p \<Rightarrow>
            let es = elements_d (rowList_d m ! p) in
            if es = [] then Inr (setElements_d m p [\<lparr>col_d = c, value_d = v\<rparr>])
            else if col_d (hd es) > c then
              Inr (setElements_d m p (\<lparr>col_d = c, value_d = v\<rparr> # es))
            else
              let q = skipCols_d es c in
              if q < length es \<and> col_d (es ! q) = c then
                Inr (setElements_d m p (es[q := (es ! q)\<lparr>value_d := v\<rparr>]))
              else if q = 0 then Inr (setElements_d m p (\<lparr>col_d = c, value_d = v\<rparr> # es))
              else Inr (setElements_d m p (take q es @ \<lparr>col_d = c, value_d = v\<rparr> # drop q es)))"

text \<open>\<^verbatim>\<open>cleanupEmptyRows()\<close>.\<close>

definition cleanupEmptyRows_d :: "SparseMatrix_d \<Rightarrow> SparseMatrix_d" where
  "cleanupEmptyRows_d m =
     (if rowList_d m = [] then m
      else
        let rl = dropEmptyHead_d (rowList_d m) in
        if rl = [] then m\<lparr>rowList_d := []\<rparr>
        else m\<lparr>rowList_d := hd rl # unlinkEmpty_d (tl rl)\<rparr>)"


text \<open>\<^verbatim>\<open>insert(r, c, v)\<close>: the exception thrown, if any, and the matrix as the call leaves it.\<close>

definition insertM_d :: "SparseMatrix_d \<Rightarrow> int \<Rightarrow> int \<Rightarrow> double \<Rightarrow> error option \<times> SparseMatrix_d" where
  "insertM_d m r c v =
     (if abs_lt_eps v then
        (case getRowNode_d m r False of
           Inl e \<Rightarrow> (Some e, m)
         | Inr (m1, None) \<Rightarrow> (None, m1)
         | Inr (m1, Some p) \<Rightarrow>
             let m2 = removeFromRow_d m1 (Some p) c in
             if elements_d (rowList_d m2 ! p) = [] then (None, cleanupEmptyRows_d m2)
             else (None, m2))
      else
        (case getRowNode_d m r True of
           Inl e \<Rightarrow> (Some e, m)
         | Inr (m1, rowNode) \<Rightarrow>
             (case insertIntoRow_d m1 rowNode c v of
                Inl e \<Rightarrow> (Some e, m1)
              | Inr m2 \<Rightarrow> (None, m2))))"

text \<open>\<^verbatim>\<open>get(r, c)\<close>.\<close>

definition get_d :: "SparseMatrix_d \<Rightarrow> int \<Rightarrow> int \<Rightarrow> error + double" where
  "get_d m r c =
     (if r < 0 \<or> r \<ge> rows_d m \<or> c < 0 \<or> c \<ge> cols_d m then
        Inl (out_of_range ''Index out of range'')
      else
        let p = skipRows_d (rowList_d m) r in
        if p \<ge> length (rowList_d m) \<or> row_d (rowList_d m ! p) \<noteq> r then Inr (Finite 0)
        else
          let es = elements_d (rowList_d m ! p); q = skipCols_d es c in
          if q \<ge> length es \<or> col_d (es ! q) \<noteq> c then Inr (Finite 0)
          else Inr (value_d (es ! q)))"

text \<open>\<^verbatim>\<open>countNonZero()\<close>.\<close>

definition countNonZero_d :: "SparseMatrix_d \<Rightarrow> int" where
  "countNonZero_d m = (\<Sum>n\<leftarrow>rowList_d m. int (length (elements_d n)))"

section \<open>Example matrices\<close>

text \<open>The matrix \<open>[[1, 2], [3, 4]]\<close> of the specification's scenarios, as its inserts store it.\<close>

definition M1 :: SparseMatrix where
  "M1 = \<lparr>rows = 2, cols = 2, rowList =
     [\<lparr>row = 0, elements = [\<lparr>col = 0, value = 1\<rparr>, \<lparr>col = 1, value = 2\<rparr>]\<rparr>,
      \<lparr>row = 1, elements = [\<lparr>col = 0, value = 3\<rparr>, \<lparr>col = 1, value = 4\<rparr>]\<rparr>]\<rparr>"

text \<open>An all-zero matrix of the given dimensions.\<close>

definition zeroMatrix :: "int \<Rightarrow> int \<Rightarrow> SparseMatrix" where
  "zeroMatrix r c = \<lparr>rows = r, cols = c, rowList = []\<rparr>"

text \<open>The 3 by 3 matrix \<open>[[2, 0, 1], [0, 3, 0], [0, 0, 4]]\<close>.\<close>

definition D3 :: SparseMatrix where
  "D3 = \<lparr>rows = 3, cols = 3, rowList =
     [\<lparr>row = 0, elements = [\<lparr>col = 0, value = 2\<rparr>, \<lparr>col = 2, value = 1\<rparr>]\<rparr>,
      \<lparr>row = 1, elements = [\<lparr>col = 1, value = 3\<rparr>]\<rparr>,
      \<lparr>row = 2, elements = [\<lparr>col = 2, value = 4\<rparr>]\<rparr>]\<rparr>"

text \<open>The matrix \<open>[[5, 6], [7, 8]]\<close> of the specification's scenarios.\<close>

definition M2 :: SparseMatrix where
  "M2 = \<lparr>rows = 2, cols = 2, rowList =
     [\<lparr>row = 0, elements = [\<lparr>col = 0, value = 5\<rparr>, \<lparr>col = 1, value = 6\<rparr>]\<rparr>,
      \<lparr>row = 1, elements = [\<lparr>col = 0, value = 7\<rparr>, \<lparr>col = 1, value = 8\<rparr>]\<rparr>]\<rparr>"

text \<open>
  Two 1 by 1 matrices whose cells differ by \<open>2\<^sup>-\<^sup>4\<^sup>0\<close>, less than the threshold; both
  values are binary fractions, exact as \<^verbatim>\<open>double\<close>.
\<close>

definition A0 :: SparseMatrix where
  "A0 = \<lparr>rows = 1, cols = 1, rowList = [\<lparr>row = 0, elements = [\<lparr>col = 0, value = 1\<rparr>]\<rparr>]\<rparr>"

definition B0 :: SparseMatrix where
  "B0 = \<lparr>rows = 1, cols = 1, rowList =
     [\<lparr>row = 0, elements = [\<lparr>col = 0, value = 1 + 1 / 2 ^ 40\<rparr>]\<rparr>]\<rparr>"

text \<open>
  A sequence of calls on a 3 by 3 matrix: three cells stored, one erased, a refused
  column, a refused row, and the erasure of a cell that is not stored.
\<close>

definition demoCalls :: "(int \<times> int \<times> real) list" where
  "demoCalls = [(1, 1, 1), (0, 1, 2), (1, 0, 3), (1, 1, 0), (2, 5, 1), (7, 0, 1), (0, 0, 0)]"

text \<open>The matrix the calls of \<open>demoCalls\<close> leave: its row 2 is empty.\<close>

definition M3 :: SparseMatrix where
  "M3 = \<lparr>rows = 3, cols = 3, rowList =
          [\<lparr>row = 0, elements = [\<lparr>col = 1, value = 2\<rparr>]\<rparr>,
           \<lparr>row = 1, elements = [\<lparr>col = 0, value = 3\<rparr>]\<rparr>,
           \<lparr>row = 2, elements = []\<rparr>]\<rparr>"

section \<open>Specification-level notions\<close>

text \<open>
  The definitions of this section are not code of the repository: they are the
  list-level operations, the invariants and the read-out that the theorems below use to
  say what the code does.

  \<open>upsertCol\<close>: a cell chain with the cell of column \<open>c\<close> set to \<open>v\<close>, put before
  the first cell of a column that is not smaller.
\<close>

fun upsertCol :: "int \<Rightarrow> real \<Rightarrow> MatrixNode list \<Rightarrow> MatrixNode list" where
  "upsertCol c v [] = [\<lparr>col = c, value = v\<rparr>]"
| "upsertCol c v (e # es) =
     (if c < col e then \<lparr>col = c, value = v\<rparr> # e # es
      else if col e = c then e\<lparr>value := v\<rparr> # es
      else e # upsertCol c v es)"

text \<open>\<open>removeCol\<close>: a cell chain without its first cell of column \<open>c\<close>.\<close>

fun removeCol :: "int \<Rightarrow> MatrixNode list \<Rightarrow> MatrixNode list" where
  "removeCol c [] = []"
| "removeCol c (e # es) = (if col e = c then es else e # removeCol c es)"

text \<open>
  \<open>touchRow\<close>: a row chain with an empty row \<open>r\<close> linked in before the first row of an
  index that is not smaller, unless that row is row \<open>r\<close>.
\<close>

fun touchRow :: "int \<Rightarrow> RowNode list \<Rightarrow> RowNode list" where
  "touchRow r [] = [\<lparr>row = r, elements = []\<rparr>]"
| "touchRow r (n # ns) =
     (if row n < r then n # touchRow r ns
      else if row n = r then n # ns
      else \<lparr>row = r, elements = []\<rparr> # n # ns)"

text \<open>\<open>modifyRow\<close>: the cell chain of the row that the scan for \<open>r\<close> stops at, if it is row \<open>r\<close>, replaced.\<close>

fun modifyRow :: "int \<Rightarrow> (MatrixNode list \<Rightarrow> MatrixNode list) \<Rightarrow> RowNode list \<Rightarrow> RowNode list" where
  "modifyRow r f [] = []"
| "modifyRow r f (n # ns) =
     (if row n < r then n # modifyRow r f ns
      else if row n = r then n\<lparr>elements := f (elements n)\<rparr> # ns
      else n # ns)"

text \<open>\<open>findRow\<close> and \<open>findCol\<close>: what the scans of \<^verbatim>\<open>get\<close> find.\<close>

fun findRow :: "int \<Rightarrow> RowNode list \<Rightarrow> MatrixNode list option" where
  "findRow r [] = None"
| "findRow r (n # ns) =
     (if row n < r then findRow r ns else if row n = r then Some (elements n) else None)"

fun findCol :: "int \<Rightarrow> MatrixNode list \<Rightarrow> real option" where
  "findCol c [] = None"
| "findCol c (e # es) =
     (if col e < c then findCol c es else if col e = c then Some (value e) else None)"

text \<open>
  \<open>eraseCell\<close>: the cell (r, c) removed from the row the scan finds; all empty rows
  unlinked if that row is empty afterwards.
\<close>

definition eraseCell :: "int \<Rightarrow> int \<Rightarrow> RowNode list \<Rightarrow> RowNode list" where
  "eraseCell r c rl =
     (let rl' = modifyRow r (removeCol c) rl in
      if findRow r rl' = Some [] then filter (\<lambda>n. elements n \<noteq> []) rl' else rl')"

text \<open>\<open>look\<close>: the value stored at a cell as \<^verbatim>\<open>get\<close> finds it, if it finds one.\<close>

definition look :: "SparseMatrix \<Rightarrow> int \<Rightarrow> int \<Rightarrow> real option" where
  "look m r c = (case findRow r (rowList m) of None \<Rightarrow> None | Some es \<Rightarrow> findCol c es)"

text \<open>
  \<open>ascending\<close>: rows strictly ascending by index and, in every row, cells strictly
  ascending by column.
\<close>

definition ascending :: "SparseMatrix \<Rightarrow> bool" where
  "ascending m \<longleftrightarrow>
     sorted_wrt (<) (map row (rowList m)) \<and>
     (\<forall>n \<in> set (rowList m). sorted_wrt (<) (map col (elements n)))"

text \<open>\<open>in_bounds\<close>: every stored row index and column lies within the dimensions.\<close>

definition in_bounds :: "SparseMatrix \<Rightarrow> bool" where
  "in_bounds m \<longleftrightarrow>
     (\<forall>n \<in> set (rowList m). 0 \<le> row n \<and> row n < rows m \<and>
        (\<forall>e \<in> set (elements n). 0 \<le> col e \<and> col e < cols m))"

text \<open>\<open>no_small\<close>: no stored value is below the threshold in magnitude.\<close>

definition no_small :: "SparseMatrix \<Rightarrow> bool" where
  "no_small m \<longleftrightarrow> (\<forall>n \<in> set (rowList m). \<forall>e \<in> set (elements n). eps \<le> \<bar>value e\<bar>)"

text \<open>\<open>no_empty_rows\<close>: every stored row holds a cell.\<close>

definition no_empty_rows :: "SparseMatrix \<Rightarrow> bool" where
  "no_empty_rows m \<longleftrightarrow> (\<forall>n \<in> set (rowList m). elements n \<noteq> [])"

text \<open>
  \<open>wellformed\<close>: the invariant of the matrices the public interface builds: positive
  dimensions, ascending chains, stored indices within the dimensions, no stored value
  below the threshold. The constructor establishes it and every insert keeps it, throwing
  or not (\<open>wellformed_new\<close>, \<open>wellformed_insertM\<close> below).
\<close>

definition wellformed :: "SparseMatrix \<Rightarrow> bool" where
  "wellformed m \<longleftrightarrow> 0 < rows m \<and> 0 < cols m \<and> ascending m \<and> in_bounds m \<and> no_small m"

text \<open>
  \<open>inserts\<close>: a sequence of calls of \<^verbatim>\<open>insert\<close> on one matrix, by a caller that catches
  the exception of a failing call and goes on.
\<close>

fun inserts :: "SparseMatrix \<Rightarrow> (int \<times> int \<times> real) list \<Rightarrow> SparseMatrix" where
  "inserts m [] = m"
| "inserts m ((r, c, v) # calls) = inserts (snd (insertM m r c v)) calls"

text \<open>\<open>all_cells\<close>: a property of every stored row index and of every stored cell.\<close>

definition all_cells :: "(int \<Rightarrow> bool) \<Rightarrow> (MatrixNode \<Rightarrow> bool) \<Rightarrow> RowNode list \<Rightarrow> bool" where
  "all_cells R E rl \<longleftrightarrow> (\<forall>n \<in> set rl. R (row n) \<and> (\<forall>e \<in> set (elements n). E e))"

text \<open>\<open>entries\<close>: the stored cells in chain order, each as ((row, column), value).\<close>

definition entries :: "RowNode list \<Rightarrow> ((int \<times> int) \<times> real) list" where
  "entries rl = concat (map (\<lambda>n. map (\<lambda>e. ((row n, col e), value e)) (elements n)) rl)"

text \<open>\<open>stored\<close>: some row node of index \<open>r\<close> holds a cell of column \<open>c\<close>.\<close>

definition stored :: "SparseMatrix \<Rightarrow> int \<Rightarrow> int \<Rightarrow> bool" where
  "stored m r c \<longleftrightarrow> (\<exists>n \<in> set (rowList m). row n = r \<and> (\<exists>e \<in> set (elements n). col e = c))"

text \<open>
  \<open>foldE\<close>: a body run on the state for each item of a list, in order, until one throws;
  the traversal of the derived operations is this fold over the stored cells.
\<close>

fun foldE :: "('a \<Rightarrow> 's \<Rightarrow> error + 's) \<Rightarrow> 'a list \<Rightarrow> 's \<Rightarrow> error + 's" where
  "foldE body [] s = Inr s"
| "foldE body (x # xs) s = (case body x s of Inl e \<Rightarrow> Inl e | Inr s' \<Rightarrow> foldE body xs s')"

text \<open>\<open>suppress\<close>: what an insert of the value leaves stored at its cell.\<close>

definition suppress :: "real \<Rightarrow> real option" where
  "suppress x = (if \<bar>x\<bar> < eps then None else Some x)"

text \<open>\<open>valueOf\<close>: what \<^verbatim>\<open>get\<close> returns for what is stored at a cell.\<close>

definition valueOf :: "real option \<Rightarrow> real" where
  "valueOf x = (case x of None \<Rightarrow> 0 | Some v \<Rightarrow> v)"

text \<open>
  \<open>proper\<close>: the invariant of the matrices the operations return: the invariant of the
  public interface, and no empty row.
\<close>

definition proper :: "SparseMatrix \<Rightarrow> bool" where
  "proper m \<longleftrightarrow> wellformed m \<and> no_empty_rows m"

text \<open>
  \<open>asDouble\<close>: a matrix of the embedding over the reals as the matrix of finite values
  that it stands for.
\<close>

definition cellAsDouble :: "MatrixNode \<Rightarrow> MatrixNode_d" where
  "cellAsDouble e = \<lparr>col_d = col e, value_d = Finite (value e)\<rparr>"

definition rowAsDouble :: "RowNode \<Rightarrow> RowNode_d" where
  "rowAsDouble n = \<lparr>row_d = row n, elements_d = map cellAsDouble (elements n)\<rparr>"

definition asDouble :: "SparseMatrix \<Rightarrow> SparseMatrix_d" where
  "asDouble m = \<lparr>rows_d = rows m, cols_d = cols m, rowList_d = map rowAsDouble (rowList m)\<rparr>"

section \<open>The two implementations agree\<close>

lemma getRowNode_t_eq: "getRowNode_t m r create = getRowNode m r create"
  unfolding getRowNode_t_def getRowNode_def by (rule refl)

lemma removeFromRow_t_eq: "removeFromRow_t m p c = removeFromRow m p c"
  unfolding removeFromRow_t_def removeFromRow_def by (rule refl)

lemma insertIntoRow_t_eq: "insertIntoRow_t m p c v = insertIntoRow m p c v"
  unfolding insertIntoRow_t_def insertIntoRow_def removeFromRow_t_eq by (rule refl)

lemma cleanupEmptyRows_t_eq: "cleanupEmptyRows_t m = cleanupEmptyRows m"
  unfolding cleanupEmptyRows_t_def cleanupEmptyRows_def by (rule refl)

lemma newSparseMatrix_t_eq: "newSparseMatrix_t r c = newSparseMatrix r c"
  unfolding newSparseMatrix_t_def newSparseMatrix_def by (rule refl)

lemma insertM_t_eq: "insertM_t m r c v = insertM m r c v"
  unfolding insertM_t_def insertM_def getRowNode_t_eq removeFromRow_t_eq insertIntoRow_t_eq
    cleanupEmptyRows_t_eq by (rule refl)

lemma insertE_t_eq: "insertE_t m r c v = insertE m r c v"
  unfolding insertE_t_def insertE_def insertM_t_eq by (rule refl)

lemma get_t_eq: "get_t m r c = get m r c"
  unfolding get_t_def get_def by (rule refl)

lemma add_t_eq: "add_t a b = add a b"
  unfolding add_t_def add_def newSparseMatrix_t_eq insertE_t_eq get_t_eq by (rule refl)

lemma scalarMultiply_t_eq: "scalarMultiply_t a k = scalarMultiply a k"
  unfolding scalarMultiply_t_def scalarMultiply_def newSparseMatrix_t_eq insertE_t_eq by (rule refl)

lemma dotRow_t_eq: "dotRow_t other j es acc = dotRow other j es acc"
  by (induction es arbitrary: acc) (simp_all add: get_t_eq split: sum.splits)

lemma columnLoop_t_eq: "columnLoop_t other i es j result = columnLoop other i es j result"
proof (induction other i es j result rule: columnLoop.induct)
  case (1 other i es j result)
  show ?case
  proof (cases "j < cols other")
    case False
    then show ?thesis
      by (subst columnLoop_t.simps, subst columnLoop.simps) simp
  next
    case True
    show ?thesis
      apply (subst columnLoop_t.simps, subst columnLoop.simps)
      using True "1.IH" 
      by (auto simp add: dotRow_t_eq insertE_t_eq split: sum.splits)
  qed
qed

lemma rowLoop_t_eq: "rowLoop_t other ns result = rowLoop other ns result"
  by (induction ns arbitrary: result) (simp_all add: columnLoop_t_eq split: sum.splits)

lemma multiply_t_eq: "multiply_t a b = multiply a b"
  unfolding multiply_t_def multiply_def newSparseMatrix_t_eq rowLoop_t_eq by (rule refl)

lemma transposeM_t_eq: "transposeM_t a = transposeM a"
  unfolding transposeM_t_def transposeM_def newSparseMatrix_t_eq insertE_t_eq by (rule refl)

text \<open>
  Claim C5. The class of \<^verbatim>\<open>matrice.cpp\<close> and the class of \<^verbatim>\<open>test_matrix.cpp\<close> behave
  identically on every operation both provide: construction, insert, get, add,
  scalarMultiply, multiply and transpose return the same result (the same matrix, the
  same value or the same exception) on the same arguments.
\<close>

theorem variants_agree:
  "newSparseMatrix_t r c = newSparseMatrix r c \<and>
   insertM_t m r c v = insertM m r c v \<and>
   get_t m r c = get m r c \<and>
   add_t m m' = add m m' \<and>
   scalarMultiply_t m k = scalarMultiply m k \<and>
   multiply_t m m' = multiply m m' \<and>
   transposeM_t m = transposeM m"
  by (simp only: newSparseMatrix_t_eq insertM_t_eq get_t_eq add_t_eq scalarMultiply_t_eq
      multiply_t_eq transposeM_t_eq simp_thms)

section \<open>Reads and the determinant\<close>

lemma get_in_range:
  "0 \<le> r \<Longrightarrow> r < rows m \<Longrightarrow> 0 \<le> c \<Longrightarrow> c < cols m \<Longrightarrow> \<exists>x. get m r c = Inr x"
  by (simp add: get_def Let_def)

text \<open>
  Claim C9. The determinant of a matrix that is not square is an error; of a square matrix
  of order 1 it is the cell (0,0); of order 2 it is \<open>a * d - b * c\<close> over the four cells
  read with get; of order 3 it is the cofactor expansion along the first row over the
  nine cells read with get; of any order from 4 on it is the error that the size is not
  supported.
\<close>

theorem determinant_cases:
  "(rows m \<noteq> cols m \<longrightarrow>
      determinant m = Inl (invalid_argument ''Matrix must be square to calculate determinant''))
   \<and> (rows m = 1 \<and> cols m = 1 \<longrightarrow> (\<exists>a. get m 0 0 = Inr a \<and> determinant m = Inr a))
   \<and> (rows m = 2 \<and> cols m = 2 \<longrightarrow>
        (\<exists>a b c d. get m 0 0 = Inr a \<and> get m 0 1 = Inr b \<and> get m 1 0 = Inr c \<and> get m 1 1 = Inr d
           \<and> determinant m = Inr (a * d - b * c)))
   \<and> (rows m = 3 \<and> cols m = 3 \<longrightarrow>
        (\<exists>a b c d e f g h i.
           get m 0 0 = Inr a \<and> get m 0 1 = Inr b \<and> get m 0 2 = Inr c \<and>
           get m 1 0 = Inr d \<and> get m 1 1 = Inr e \<and> get m 1 2 = Inr f \<and>
           get m 2 0 = Inr g \<and> get m 2 1 = Inr h \<and> get m 2 2 = Inr i \<and>
           determinant m = Inr (a * (e * i - f * h) - b * (d * i - f * g) + c * (d * h - e * g))))
   \<and> (rows m = cols m \<and> 4 \<le> rows m \<longrightarrow>
        determinant m = Inl (invalid_argument
          ''Determinant calculation for matrices larger than 3x3 not implemented''))"
proof (intro conjI impI)
  assume "rows m \<noteq> cols m"
  then show "determinant m = Inl (invalid_argument ''Matrix must be square to calculate determinant'')"
    by (simp add: determinant_def)
next
  assume h: "rows m = 1 \<and> cols m = 1"
  then obtain a where "get m 0 0 = Inr a"
    using get_in_range [of 0 m 0] by auto
  with h show "\<exists>a. get m 0 0 = Inr a \<and> determinant m = Inr a"
    by (simp add: determinant_def)
next
  assume h: "rows m = 2 \<and> cols m = 2"
  obtain a where a: "get m 0 0 = Inr a" using h get_in_range [of 0 m 0] by auto
  obtain b where b: "get m 0 1 = Inr b" using h get_in_range [of 0 m 1] by auto
  obtain c where c: "get m 1 0 = Inr c" using h get_in_range [of 1 m 0] by auto
  obtain d where d: "get m 1 1 = Inr d" using h get_in_range [of 1 m 1] by auto
  have "determinant m = Inr (a * d - b * c)"
    using h by (simp add: determinant_def bindE_def a b c d)
  with a b c d show "\<exists>a b c d. get m 0 0 = Inr a \<and> get m 0 1 = Inr b \<and> get m 1 0 = Inr c \<and>
      get m 1 1 = Inr d \<and> determinant m = Inr (a * d - b * c)"
    by blast
next
  assume h: "rows m = 3 \<and> cols m = 3"
  obtain a where a: "get m 0 0 = Inr a" using h get_in_range [of 0 m 0] by auto
  obtain b where b: "get m 0 1 = Inr b" using h get_in_range [of 0 m 1] by auto
  obtain c where c: "get m 0 2 = Inr c" using h get_in_range [of 0 m 2] by auto
  obtain d where d: "get m 1 0 = Inr d" using h get_in_range [of 1 m 0] by auto
  obtain e where e: "get m 1 1 = Inr e" using h get_in_range [of 1 m 1] by auto
  obtain f where f: "get m 1 2 = Inr f" using h get_in_range [of 1 m 2] by auto
  obtain g where g: "get m 2 0 = Inr g" using h get_in_range [of 2 m 0] by auto
  obtain k where k: "get m 2 1 = Inr k" using h get_in_range [of 2 m 1] by auto
  obtain i where i: "get m 2 2 = Inr i" using h get_in_range [of 2 m 2] by auto
  have "determinant m = Inr (a * (e * i - f * k) - b * (d * i - f * g) + c * (d * k - e * g))"
    using h by (simp add: determinant_def bindE_def a b c d e f g k i)
  with a b c d e f g k i show "\<exists>a b c d e f g h i.
           get m 0 0 = Inr a \<and> get m 0 1 = Inr b \<and> get m 0 2 = Inr c \<and>
           get m 1 0 = Inr d \<and> get m 1 1 = Inr e \<and> get m 1 2 = Inr f \<and>
           get m 2 0 = Inr g \<and> get m 2 1 = Inr h \<and> get m 2 2 = Inr i \<and>
           determinant m = Inr (a * (e * i - f * h) - b * (d * i - f * g) + c * (d * h - e * g))"
    by blast
next
  assume "rows m = cols m \<and> 4 \<le> rows m"
  then show "determinant m = Inl (invalid_argument
          ''Determinant calculation for matrices larger than 3x3 not implemented'')"
    by (simp add: determinant_def)
qed

lemma M1_get:
  "get M1 0 0 = Inr 1" "get M1 0 1 = Inr 2" "get M1 1 0 = Inr 3" "get M1 1 1 = Inr 4"
  by (simp_all add: M1_def get_def)

lemma D3_get:
  "get D3 0 0 = Inr 2" "get D3 0 1 = Inr 0" "get D3 0 2 = Inr 1"
  "get D3 1 0 = Inr 0" "get D3 1 1 = Inr 3" "get D3 1 2 = Inr 0"
  "get D3 2 0 = Inr 0" "get D3 2 1 = Inr 0" "get D3 2 2 = Inr 4"
  by (simp_all add: D3_def get_def)

theorem determinant_cases_witness:
  "determinant (zeroMatrix 2 3) =
     Inl (invalid_argument ''Matrix must be square to calculate determinant'')
   \<and> determinant (zeroMatrix 1 1) = Inr 0
   \<and> determinant M1 = Inr (- 2)
   \<and> determinant D3 = Inr 24
   \<and> determinant (zeroMatrix 4 4) =
     Inl (invalid_argument ''Determinant calculation for matrices larger than 3x3 not implemented'')"
proof (intro conjI)
  have "rows (zeroMatrix 2 3) \<noteq> cols (zeroMatrix 2 3)" by (simp add: zeroMatrix_def)
  with determinant_cases [of "zeroMatrix 2 3"]
  show "determinant (zeroMatrix 2 3) =
     Inl (invalid_argument ''Matrix must be square to calculate determinant'')"
    by blast
next
  have "rows (zeroMatrix 1 1) = 1 \<and> cols (zeroMatrix 1 1) = 1" by (simp add: zeroMatrix_def)
  with determinant_cases [of "zeroMatrix 1 1"]
  obtain a where "get (zeroMatrix 1 1) 0 0 = Inr a" "determinant (zeroMatrix 1 1) = Inr a"
    by blast
  then show "determinant (zeroMatrix 1 1) = Inr 0"
    by (simp add: zeroMatrix_def get_def)
next
  have "rows M1 = 2 \<and> cols M1 = 2" by (simp add: M1_def)
  with determinant_cases [of M1]
  obtain a b c d where "get M1 0 0 = Inr a" "get M1 0 1 = Inr b" "get M1 1 0 = Inr c"
    "get M1 1 1 = Inr d" "determinant M1 = Inr (a * d - b * c)"
    by blast
  then show "determinant M1 = Inr (- 2)" by (simp add: M1_get)
next
  have "rows D3 = 3 \<and> cols D3 = 3" by (simp add: D3_def)
  with determinant_cases [of D3]
  obtain a b c d e f g h i where
    "get D3 0 0 = Inr a" "get D3 0 1 = Inr b" "get D3 0 2 = Inr c"
    "get D3 1 0 = Inr d" "get D3 1 1 = Inr e" "get D3 1 2 = Inr f"
    "get D3 2 0 = Inr g" "get D3 2 1 = Inr h" "get D3 2 2 = Inr i"
    "determinant D3 = Inr (a * (e * i - f * h) - b * (d * i - f * g) + c * (d * h - e * g))"
    by blast
  then show "determinant D3 = Inr 24" by (simp add: D3_get)
next
  have "rows (zeroMatrix 4 4) = cols (zeroMatrix 4 4) \<and> 4 \<le> rows (zeroMatrix 4 4)"
    by (simp add: zeroMatrix_def)
  with determinant_cases [of "zeroMatrix 4 4"]
  show "determinant (zeroMatrix 4 4) =
     Inl (invalid_argument ''Determinant calculation for matrices larger than 3x3 not implemented'')"
    by blast
qed

section \<open>Assignment\<close>

lemma copyElements_id: "copyElements es = es"
  by (induction es) simp_all

lemma copyRows_id: "copyRows ns = ns"
  by (induction ns) (simp_all add: copyElements_id)

lemma assign_other: "this \<noteq> other \<Longrightarrow> assign s this other = s(this := s other)"
  by (simp add: assign_def Let_def copyRows_id fun_eq_iff)

text \<open>
  Claim C10. Assigning a matrix to itself leaves it unchanged, in both source files: the
  dimensions and every row and cell are those from before the assignment (and so is every
  other matrix of the store).
\<close>

theorem self_assignment: "assign s a a = s \<and> assign_t s a a = s"
  by (simp add: assign_def assign_t_def)

section \<open>Inserts outside the bounds\<close>

text \<open>
  Claim C1 asks for an index error from every insert outside the bounds, whatever the
  value. On a fresh 2 by 2 matrix \<^verbatim>\<open>insert(0, 5, 0.0)\<close> returns normally: the branch for
  values below the threshold validates the row in \<^verbatim>\<open>getRowNode\<close> and never looks at the
  column, while the branch for the other values validates it in \<^verbatim>\<open>insertIntoRow\<close>.
\<close>

theorem insert_zero_skips_column_check:
  "insertM \<lparr>rows = 2, cols = 2, rowList = []\<rparr> 0 5 0 = (None, \<lparr>rows = 2, cols = 2, rowList = []\<rparr>)"
  by (simp add: insertM_def getRowNode_def eps_def)

text \<open>
  Claim C3 asks that no stored row is empty after any insert, failing calls included. On a
  fresh 2 by 2 matrix \<^verbatim>\<open>insert(0, 5, 1.0)\<close> throws the column error after
  \<^verbatim>\<open>getRowNode\<close> has linked the node of row 0 in, and the empty row stays.
\<close>

theorem insert_leaves_empty_row:
  "insertM \<lparr>rows = 2, cols = 2, rowList = []\<rparr> 0 5 1 =
     (Some (out_of_range ''Column index out of range''),
      \<lparr>rows = 2, cols = 2, rowList = [\<lparr>row = 0, elements = []\<rparr>]\<rparr>)"
  by (simp add: insertM_def getRowNode_def insertIntoRow_def eps_def)

section \<open>The storage engine on chains\<close>

text \<open>The positions the scans return, and the list operations in terms of positions.\<close>

lemma skipRows_le: "skipRows rl r \<le> length rl"
  by (induction rl) simp_all

lemma skipCols_le: "skipCols es c \<le> length es"
  by (induction es) simp_all

lemma upsertCol_index:
  "upsertCol c v es =
     (let q = skipCols es c in
      if q < length es \<and> col (es ! q) = c then es[q := (es ! q)\<lparr>value := v\<rparr>]
      else take q es @ \<lparr>col = c, value = v\<rparr> # drop q es)"
  by (induction es) (auto simp add: Let_def)

lemma removeCol_index:
  "removeCol c es =
     (let q = seekCol es c in if q < length es then take q es @ drop (Suc q) es else es)"
  by (induction es) (auto simp add: Let_def)

lemma touchRow_index:
  "touchRow r rl =
     (let p = skipRows rl r in
      if p < length rl \<and> row (rl ! p) = r then rl
      else take p rl @ \<lparr>row = r, elements = []\<rparr> # drop p rl)"
  by (induction rl) (auto simp add: Let_def)

lemma findRow_index:
  "findRow r rl =
     (let p = skipRows rl r in
      if p < length rl \<and> row (rl ! p) = r then Some (elements (rl ! p)) else None)"
  by (induction rl) (auto simp add: Let_def)

lemma findCol_index:
  "findCol c es =
     (let q = skipCols es c in
      if q < length es \<and> col (es ! q) = c then Some (value (es ! q)) else None)"
  by (induction es) (auto simp add: Let_def)

lemma modifyRow_index:
  "modifyRow r f rl =
     (let p = skipRows rl r in
      if p < length rl \<and> row (rl ! p) = r then rl[p := (rl ! p)\<lparr>elements := f (elements (rl ! p))\<rparr>]
      else rl)"
  by (induction rl) (auto simp add: Let_def)

lemma touchRow_found:
  "skipRows (touchRow r rl) r = skipRows rl r \<and> skipRows rl r < length (touchRow r rl)
   \<and> row (touchRow r rl ! skipRows rl r) = r"
  by (induction rl) auto

lemma cleanup_filter:
  "(if rl = [] then [] else let d = dropEmptyHead rl in if d = [] then [] else hd d # unlinkEmpty (tl d))
     = filter (\<lambda>n. elements n \<noteq> []) rl"
proof -
  have u: "unlinkEmpty ns = filter (\<lambda>n. elements n \<noteq> []) ns" for ns
    by (induction ns) simp_all
  have d: "dropEmptyHead ns = [] \<Longrightarrow> filter (\<lambda>n. elements n \<noteq> []) ns = []" for ns
    by (induction ns) (simp_all split: if_splits)
  have e: "dropEmptyHead ns \<noteq> [] \<Longrightarrow>
       hd (dropEmptyHead ns) # filter (\<lambda>n. elements n \<noteq> []) (tl (dropEmptyHead ns))
       = filter (\<lambda>n. elements n \<noteq> []) ns" for ns
    by (induction ns) (simp_all split: if_splits)
  show ?thesis
    by (cases "rl = []") (auto simp add: Let_def u d e)
qed

lemma cleanupEmptyRows_filter:
  "cleanupEmptyRows m = m\<lparr>rowList := filter (\<lambda>n. elements n \<noteq> []) (rowList m)\<rparr>"
proof -
  have "rowList (cleanupEmptyRows m) = filter (\<lambda>n. elements n \<noteq> []) (rowList m)"
    using cleanup_filter [of "rowList m"]
    by (simp add: cleanupEmptyRows_def Let_def split: if_splits)
  moreover have "rows (cleanupEmptyRows m) = rows m" "cols (cleanupEmptyRows m) = cols m"
    by (simp_all add: cleanupEmptyRows_def Let_def)
  ultimately show ?thesis by simp
qed

text \<open>The member functions of the storage engine in terms of the list operations.\<close>

lemma getRowNode_create:
  assumes "0 \<le> r" "r < rows m"
  shows "getRowNode m r True =
           Inr (m\<lparr>rowList := touchRow r (rowList m)\<rparr>, Some (skipRows (rowList m) r))"
proof (cases "rowList m")
  case Nil
  with assms show ?thesis by (simp add: getRowNode_def)
next
  case (Cons n ns)
  show ?thesis
  proof (cases "r < row n")
    case True
    with assms Cons show ?thesis by (simp add: getRowNode_def)
  next
    case False
    have "touchRow r (rowList m) =
        (let p = skipRows (rowList m) r in
         if p < length (rowList m) \<and> row (rowList m ! p) = r then rowList m
         else take p (rowList m) @ \<lparr>row = r, elements = []\<rparr> # drop p (rowList m))"
      by (rule touchRow_index)
    with assms False Cons show ?thesis
      by (auto simp add: getRowNode_def Let_def)
  qed
qed

lemma getRowNode_lookup:
  assumes "0 \<le> r" "r < rows m"
  shows "getRowNode m r False =
           Inr (m, if findRow r (rowList m) = None then None else Some (skipRows (rowList m) r))"
  using assms by (auto simp add: getRowNode_def findRow_index Let_def)

lemma getRowNode_row_error:
  "r < 0 \<or> rows m \<le> r \<Longrightarrow> getRowNode m r create = Inl (out_of_range ''Row index out of range'')"
  by (auto simp add: getRowNode_def)

lemma setElements_same:
  "p < length (rowList m) \<Longrightarrow> setElements m p (elements (rowList m ! p)) = m"
  by (simp add: setElements_def)

lemma removeFromRow_Some:
  assumes "p < length (rowList m)"
  shows "removeFromRow m (Some p) c = setElements m p (removeCol c (elements (rowList m ! p)))"
proof (cases "elements (rowList m ! p)")
  case Nil
  with assms show ?thesis
    using setElements_same [of p m] by (simp add: removeFromRow_def)
next
  case (Cons e es)
  have "removeCol c es = (let q = seekCol es c in if q < length es then take q es @ drop (Suc q) es else es)"
    by (rule removeCol_index)
  with Cons assms show ?thesis
    using setElements_same [of p m] by (auto simp add: removeFromRow_def Let_def)
qed

lemma insertIntoRow_Some:
  assumes "0 \<le> c" "c < cols m" "\<not> \<bar>v\<bar> < eps"
  shows "insertIntoRow m (Some p) c v =
           Inr (setElements m p (upsertCol c v (elements (rowList m ! p))))"
proof (cases "elements (rowList m ! p)")
  case Nil
  with assms show ?thesis by (simp add: insertIntoRow_def)
next
  case (Cons e es)
  show ?thesis
  proof (cases "c < col e")
    case True
    with assms Cons show ?thesis by (simp add: insertIntoRow_def)
  next
    case False
    have "upsertCol c v (e # es) =
       (let q = skipCols (e # es) c in
        if q < length (e # es) \<and> col ((e # es) ! q) = c then (e # es)[q := ((e # es) ! q)\<lparr>value := v\<rparr>]
        else take q (e # es) @ \<lparr>col = c, value = v\<rparr> # drop q (e # es))"
      by (rule upsertCol_index)
    with assms Cons False show ?thesis
      by (simp add: insertIntoRow_def Let_def del: upsertCol.simps skipCols.simps)
  qed
qed

lemma insertIntoRow_col_error:
  "c < 0 \<or> cols m \<le> c \<Longrightarrow> insertIntoRow m p c v = Inl (out_of_range ''Column index out of range'')"
  by (auto simp add: insertIntoRow_def)

lemma modifyRow_touchRow_index:
  "(touchRow r rl)[skipRows rl r :=
      (touchRow r rl ! skipRows rl r)\<lparr>elements := f (elements (touchRow r rl ! skipRows rl r))\<rparr>]
   = modifyRow r f (touchRow r rl)"
  by (induction rl) auto

text \<open>
  The four ways an insert can go: the cell is stored, the column is refused (after the row
  has been linked in), the row is refused, the cell is erased.
\<close>

lemma insertM_stored:
  assumes "0 \<le> r" "r < rows m" "0 \<le> c" "c < cols m" "\<not> \<bar>v\<bar> < eps"
  shows "insertM m r c v = (None, m\<lparr>rowList := modifyRow r (upsertCol c v) (touchRow r (rowList m))\<rparr>)"
  using assms
  by (simp add: insertM_def getRowNode_create insertIntoRow_Some setElements_def
      modifyRow_touchRow_index)

lemma insertM_col_error:
  assumes "0 \<le> r" "r < rows m" "c < 0 \<or> cols m \<le> c" "\<not> \<bar>v\<bar> < eps"
  shows "insertM m r c v =
     (Some (out_of_range ''Column index out of range''), m\<lparr>rowList := touchRow r (rowList m)\<rparr>)"
  using assms
  by (simp add: insertM_def getRowNode_create insertIntoRow_col_error)

lemma insertM_row_error:
  assumes "r < 0 \<or> rows m \<le> r"
  shows "insertM m r c v = (Some (out_of_range ''Row index out of range''), m)"
  using assms by (simp add: insertM_def getRowNode_row_error)

lemma findRow_modifyRow_same:
  "findRow r (modifyRow r f rl) = map_option f (findRow r rl)"
  by (induction rl) auto

lemma insertM_erased:
  assumes "0 \<le> r" "r < rows m" "\<bar>v\<bar> < eps"
  shows "insertM m r c v = (None, m\<lparr>rowList := eraseCell r c (rowList m)\<rparr>)"
proof (cases "findRow r (rowList m)")
  case None
  then have "modifyRow r (removeCol c) (rowList m) = rowList m"
    by (auto simp add: modifyRow_index findRow_index Let_def split: if_splits)
  with None assms show ?thesis
    by (simp add: insertM_def getRowNode_lookup eraseCell_def)
next
  case (Some es)
  define p where "p = skipRows (rowList m) r"
  have p: "p < length (rowList m)" "row (rowList m ! p) = r"
    using Some by (auto simp add: findRow_index p_def Let_def split: if_splits)
  define rl' where "rl' = modifyRow r (removeCol c) (rowList m)"
  have rl': "rl' = (rowList m)[p := (rowList m ! p)\<lparr>elements := removeCol c (elements (rowList m ! p))\<rparr>]"
    using p by (simp add: rl'_def modifyRow_index p_def Let_def)
  have m2: "removeFromRow m (Some p) c = m\<lparr>rowList := rl'\<rparr>"
    using p by (simp add: removeFromRow_Some setElements_def rl')
  have es: "elements (rowList m ! p) = es"
    using Some by (auto simp add: findRow_index p_def Let_def split: if_splits)
  have f: "findRow r rl' = Some (removeCol c es)"
    using Some by (simp add: rl'_def findRow_modifyRow_same)
  have e: "elements (rl' ! p) = removeCol c es"
    using p es by (simp add: rl')
  show ?thesis
    using assms Some p m2 f e
    by (simp add: insertM_def getRowNode_lookup p_def [symmetric] eraseCell_def
        rl'_def [symmetric] cleanupEmptyRows_filter)
qed

section \<open>The ordering invariant\<close>

lemma cols_upsertCol: "col ` set (upsertCol c v es) = insert c (col ` set es)"
  by (induction es) auto

lemma sorted_upsertCol:
  "sorted_wrt (<) (map col es) \<Longrightarrow> sorted_wrt (<) (map col (upsertCol c v es))"
proof (induction es)
  case Nil
  then show ?case by simp
next
  case (Cons e es)
  have "\<forall>x \<in> set (upsertCol c v es). col e < col x" if "col e < c"
  proof
    fix x assume "x \<in> set (upsertCol c v es)"
    then have "col x \<in> insert c (col ` set es)"
      using cols_upsertCol [of c v es] by blast
    with that Cons.prems show "col e < col x" by auto
  qed
  with Cons show ?case by auto
qed

lemma set_removeCol: "set (removeCol c es) \<subseteq> set es"
  by (induction es) auto

lemma sorted_removeCol:
  "sorted_wrt (<) (map col es) \<Longrightarrow> sorted_wrt (<) (map col (removeCol c es))"
proof (induction es)
  case Nil
  then show ?case by simp
next
  case (Cons e es)
  with set_removeCol [of c es] show ?case by auto
qed

lemma rows_touchRow: "row ` set (touchRow r rl) = insert r (row ` set rl)"
  by (induction rl) auto

lemma set_touchRow: "set (touchRow r rl) \<subseteq> insert \<lparr>row = r, elements = []\<rparr> (set rl)"
  by (induction rl) auto

lemma sorted_touchRow:
  "sorted_wrt (<) (map row rl) \<Longrightarrow> sorted_wrt (<) (map row (touchRow r rl))"
proof (induction rl)
  case Nil
  then show ?case by simp
next
  case (Cons n ns)
  have "\<forall>x \<in> set (touchRow r ns). row n < row x" if "row n < r"
  proof
    fix x assume "x \<in> set (touchRow r ns)"
    then have "row x \<in> insert r (row ` set ns)"
      using rows_touchRow [of r ns] by blast
    with that Cons.prems show "row n < row x" by auto
  qed
  with Cons show ?case by auto
qed

lemma map_row_modifyRow: "map row (modifyRow r f rl) = map row rl"
  by (induction rl) auto

lemma set_modifyRow:
  "n' \<in> set (modifyRow r f rl) \<Longrightarrow>
     n' \<in> set rl \<or> (\<exists>n \<in> set rl. row n = r \<and> n' = n\<lparr>elements := f (elements n)\<rparr>)"
  by (induction rl) (auto split: if_splits)

lemma ascending_touch: "ascending m \<Longrightarrow> ascending (m\<lparr>rowList := touchRow r (rowList m)\<rparr>)"
  unfolding ascending_def using set_touchRow [of r "rowList m"]
  by (auto simp add: sorted_touchRow)

lemma ascending_modify:
  assumes "ascending m" "\<And>es. sorted_wrt (<) (map col es) \<Longrightarrow> sorted_wrt (<) (map col (f es))"
  shows "ascending (m\<lparr>rowList := modifyRow r f (rowList m)\<rparr>)"
  unfolding ascending_def
proof (intro conjI ballI)
  show "sorted_wrt (<) (map row (rowList (m\<lparr>rowList := modifyRow r f (rowList m)\<rparr>)))"
    using assms(1) by (simp add: map_row_modifyRow ascending_def)
next
  fix n assume "n \<in> set (rowList (m\<lparr>rowList := modifyRow r f (rowList m)\<rparr>))"
  then have "n \<in> set (modifyRow r f (rowList m))" by simp
  from set_modifyRow [OF this] show "sorted_wrt (<) (map col (elements n))"
    using assms by (auto simp add: ascending_def)
qed

lemma ascending_filter:
  "ascending m \<Longrightarrow> ascending (m\<lparr>rowList := filter P (rowList m)\<rparr>)"
  unfolding ascending_def
  by (auto simp add: sorted_wrt_map intro: sorted_wrt_filter)

lemma ascending_erase: "ascending m \<Longrightarrow> ascending (m\<lparr>rowList := eraseCell r c (rowList m)\<rparr>)"
proof -
  assume a: "ascending m"
  have 1: "ascending (m\<lparr>rowList := modifyRow r (removeCol c) (rowList m)\<rparr>)"
    using a by (rule ascending_modify) (rule sorted_removeCol)
  from ascending_filter [OF 1, of "\<lambda>n. elements n \<noteq> []"] 1 show ?thesis
    by (simp add: eraseCell_def Let_def)
qed

lemma ascending_stored:
  "ascending m \<Longrightarrow> ascending (m\<lparr>rowList := modifyRow r (upsertCol c v) (touchRow r (rowList m))\<rparr>)"
proof -
  assume a: "ascending m"
  have "ascending ((m\<lparr>rowList := touchRow r (rowList m)\<rparr>)\<lparr>rowList :=
      modifyRow r (upsertCol c v) (rowList (m\<lparr>rowList := touchRow r (rowList m)\<rparr>))\<rparr>)"
    by (rule ascending_modify [OF ascending_touch [OF a]]) (rule sorted_upsertCol)
  then show ?thesis by simp
qed

lemma insertM_cases:
  obtains (row_error) "r < 0 \<or> rows m \<le> r"
      "insertM m r c v = (Some (out_of_range ''Row index out of range''), m)"
  | (erased) "0 \<le> r" "r < rows m" "\<bar>v\<bar> < eps"
      "insertM m r c v = (None, m\<lparr>rowList := eraseCell r c (rowList m)\<rparr>)"
  | (col_error) "0 \<le> r" "r < rows m" "c < 0 \<or> cols m \<le> c" "\<not> \<bar>v\<bar> < eps"
      "insertM m r c v =
         (Some (out_of_range ''Column index out of range''), m\<lparr>rowList := touchRow r (rowList m)\<rparr>)"
  | (stored) "0 \<le> r" "r < rows m" "0 \<le> c" "c < cols m" "\<not> \<bar>v\<bar> < eps"
      "insertM m r c v = (None, m\<lparr>rowList := modifyRow r (upsertCol c v) (touchRow r (rowList m))\<rparr>)"
proof -
  consider "r < 0 \<or> rows m \<le> r" | "0 \<le> r" "r < rows m" "\<bar>v\<bar> < eps"
    | "0 \<le> r" "r < rows m" "c < 0 \<or> cols m \<le> c" "\<not> \<bar>v\<bar> < eps"
    | "0 \<le> r" "r < rows m" "0 \<le> c" "c < cols m" "\<not> \<bar>v\<bar> < eps"
    by linarith
  then show thesis
  proof cases
    case 1 with insertM_row_error [of r m c v] row_error show ?thesis by blast
  next
    case 2 with insertM_erased [of r m v c] erased show ?thesis by blast
  next
    case 3 with insertM_col_error [of r m c v] col_error show ?thesis by blast
  next
    case 4 with insertM_stored [of r m c v] stored show ?thesis by blast
  qed
qed

lemma ascending_insertM: "ascending m \<Longrightarrow> ascending (snd (insertM m r c v))"
  by (rule insertM_cases [where r = r and m = m and c = c and v = v])
     (simp_all add: ascending_erase ascending_touch ascending_stored)

lemma dims_insertM: "rows (snd (insertM m r c v)) = rows m \<and> cols (snd (insertM m r c v)) = cols m"
  by (rule insertM_cases [where r = r and m = m and c = c and v = v]) simp_all

lemma ascending_inserts: "ascending m \<Longrightarrow> ascending (inserts m calls)"
  by (induction m calls rule: inserts.induct) (simp_all add: ascending_insertM)

lemma ascending_new: "newSparseMatrix r c = Inr m \<Longrightarrow> ascending m"
  by (auto simp add: newSparseMatrix_def ascending_def split: if_splits)

text \<open>
  Claim C2. After any finite sequence of inserts on a freshly constructed matrix, with
  any values (those below the threshold remove) and any indices (calls that throw
  included), the stored rows are strictly ascending by row index, no row index appears
  twice, and within each stored row the cells are strictly ascending by column and no
  column appears twice.
\<close>

theorem inserts_keep_order:
  assumes "newSparseMatrix r0 c0 = Inr m"
  shows "sorted_wrt (<) (map row (rowList (inserts m calls)))
       \<and> distinct (map row (rowList (inserts m calls)))
       \<and> (\<forall>n \<in> set (rowList (inserts m calls)).
            sorted_wrt (<) (map col (elements n)) \<and> distinct (map col (elements n)))"
proof -
  have "ascending (inserts m calls)"
    using assms by (intro ascending_inserts ascending_new)
  then show ?thesis
    unfolding ascending_def by (auto simp add: strict_sorted_iff)
qed

section \<open>The invariant of the public interface\<close>

lemma set_upsertCol: "set (upsertCol c v es) \<subseteq> insert \<lparr>col = c, value = v\<rparr> (set es)"
  by (induction es) auto

lemma all_cells_touch: "all_cells R E rl \<Longrightarrow> R r \<Longrightarrow> all_cells R E (touchRow r rl)"
  unfolding all_cells_def using set_touchRow [of r rl] by auto

lemma all_cells_modify:
  assumes "all_cells R E rl" "\<And>es. \<forall>e \<in> set es. E e \<Longrightarrow> \<forall>e \<in> set (f es). E e"
  shows "all_cells R E (modifyRow r f rl)"
  unfolding all_cells_def
proof
  fix n assume "n \<in> set (modifyRow r f rl)"
  from set_modifyRow [OF this] show "R (row n) \<and> (\<forall>e \<in> set (elements n). E e)"
    using assms unfolding all_cells_def by auto
qed

lemma all_cells_filter: "all_cells R E rl \<Longrightarrow> all_cells R E (filter P rl)"
  unfolding all_cells_def by auto

lemma all_cells_erase: "all_cells R E rl \<Longrightarrow> all_cells R E (eraseCell r c rl)"
proof -
  assume a: "all_cells R E rl"
  have "all_cells R E (modifyRow r (removeCol c) rl)"
    using a set_removeCol [of c] by (intro all_cells_modify) auto
  then show ?thesis
    by (simp add: eraseCell_def Let_def all_cells_filter)
qed

lemma all_cells_stored:
  assumes "all_cells R E rl" "R r" "E \<lparr>col = c, value = v\<rparr>"
  shows "all_cells R E (modifyRow r (upsertCol c v) (touchRow r rl))"
proof (rule all_cells_modify)
  show "all_cells R E (touchRow r rl)" using assms by (intro all_cells_touch)
next
  fix es assume "\<forall>e \<in> set es. E e"
  with assms(3) set_upsertCol [of c v es] show "\<forall>e \<in> set (upsertCol c v es). E e" by auto
qed

lemma in_bounds_all_cells:
  "in_bounds m \<longleftrightarrow>
     all_cells (\<lambda>r. 0 \<le> r \<and> r < rows m) (\<lambda>e. 0 \<le> col e \<and> col e < cols m) (rowList m)"
  by (auto simp add: in_bounds_def all_cells_def)

lemma no_small_all_cells:
  "no_small m \<longleftrightarrow> all_cells (\<lambda>r. True) (\<lambda>e. eps \<le> \<bar>value e\<bar>) (rowList m)"
  by (auto simp add: no_small_def all_cells_def)

lemma in_bounds_insertM: "in_bounds m \<Longrightarrow> in_bounds (snd (insertM m r c v))"
  by (rule insertM_cases [where r = r and m = m and c = c and v = v])
     (simp_all add: in_bounds_all_cells all_cells_erase all_cells_touch all_cells_stored)

lemma no_small_insertM: "no_small m \<Longrightarrow> no_small (snd (insertM m r c v))"
  by (rule insertM_cases [where r = r and m = m and c = c and v = v])
     (simp_all add: no_small_all_cells all_cells_erase all_cells_touch all_cells_stored)

lemma wellformed_insertM: "wellformed m \<Longrightarrow> wellformed (snd (insertM m r c v))"
  by (simp add: wellformed_def dims_insertM ascending_insertM in_bounds_insertM no_small_insertM)

lemma wellformed_new: "newSparseMatrix r c = Inr m \<Longrightarrow> wellformed m"
  by (auto simp add: newSparseMatrix_def wellformed_def ascending_def in_bounds_def no_small_def
      split: if_splits)

lemma wellformed_inserts: "wellformed m \<Longrightarrow> wellformed (inserts m calls)"
  by (induction m calls rule: inserts.induct) (simp_all add: wellformed_insertM)

section \<open>Reading after writing\<close>

lemma get_look:
  assumes "0 \<le> r" "r < rows m" "0 \<le> c" "c < cols m"
  shows "get m r c = Inr (case look m r c of None \<Rightarrow> 0 | Some v \<Rightarrow> v)"
  using assms
  by (auto simp add: get_def look_def findRow_index findCol_index Let_def)

lemma get_error:
  "r < 0 \<or> rows m \<le> r \<or> c < 0 \<or> cols m \<le> c \<Longrightarrow> get m r c = Inl (out_of_range ''Index out of range'')"
  by (auto simp add: get_def)

lemma findCol_above: "\<forall>x \<in> set es. c < col x \<Longrightarrow> findCol c es = None"
  by (cases es) auto

lemma findRow_above: "\<forall>x \<in> set rl. r < row x \<Longrightarrow> findRow r rl = None"
  by (cases rl) auto

lemma findCol_upsertCol:
  "sorted_wrt (<) (map col es) \<Longrightarrow>
     findCol c' (upsertCol c v es) = (if c' = c then Some v else findCol c' es)"
  by (induction es) (auto simp add: findCol_above)

lemma findCol_removeCol:
  "sorted_wrt (<) (map col es) \<Longrightarrow>
     findCol c' (removeCol c es) = (if c' = c then None else findCol c' es)"
proof (induction es)
  case Nil
  then show ?case by simp
next
  case (Cons e es)
  from Cons.prems have s: "sorted_wrt (<) (map col es)" and a: "\<forall>x \<in> set es. col e < col x"
    by auto
  have ab: "findCol c' es = None" if "c' \<le> col e"
    using that a by (intro findCol_above) auto
  show ?case
    using Cons.IH [OF s] ab by auto
qed

lemma findRow_touchRow:
  "sorted_wrt (<) (map row rl) \<Longrightarrow>
     findRow r' (touchRow r rl) =
       (if r' = r then Some (case findRow r rl of None \<Rightarrow> [] | Some es \<Rightarrow> es) else findRow r' rl)"
  by (induction rl) (auto simp add: findRow_above)

lemma findRow_modifyRow:
  "sorted_wrt (<) (map row rl) \<Longrightarrow>
     findRow r' (modifyRow r f rl) = (if r' = r then map_option f (findRow r rl) else findRow r' rl)"
  by (induction rl) (auto simp add: findRow_above)

lemma findRow_filter:
  "sorted_wrt (<) (map row rl) \<Longrightarrow>
     findRow r (filter (\<lambda>n. elements n \<noteq> []) rl) =
       (case findRow r rl of None \<Rightarrow> None | Some es \<Rightarrow> if es = [] then None else Some es)"
proof (induction rl)
  case Nil
  then show ?case by simp
next
  case (Cons n ns)
  from Cons.prems have s: "sorted_wrt (<) (map row ns)" and a: "\<forall>x \<in> set ns. row n < row x"
    by auto
  have ab: "findRow r ns = None" if "r \<le> row n"
    using that a by (intro findRow_above) auto
  have ab': "findRow r (filter (\<lambda>n. elements n \<noteq> []) ns) = None" if "r \<le> row n"
    using that a by (intro findRow_above) auto
  show ?case
    using Cons.IH [OF s] ab ab' by auto
qed

lemma findRow_sorted:
  "sorted_wrt (<) (map row rl) \<Longrightarrow> (\<forall>n \<in> set rl. sorted_wrt (<) (map col (elements n)))
     \<Longrightarrow> findRow r rl = Some es \<Longrightarrow> sorted_wrt (<) (map col es)"
  by (induction rl) (auto split: if_splits)

lemma look_stored_upd:
  assumes "ascending m"
  shows "look (m\<lparr>rowList := modifyRow r (upsertCol c v) (touchRow r (rowList m))\<rparr>) r' c' =
           (if r' = r \<and> c' = c then Some v else look m r' c')"
proof -
  have s: "sorted_wrt (<) (map row (rowList m))"
    and t: "sorted_wrt (<) (map row (touchRow r (rowList m)))"
    using assms by (simp_all add: ascending_def sorted_touchRow)
  have e: "sorted_wrt (<) (map col es)" if "findRow r (rowList m) = Some es" for es
    using assms that findRow_sorted [of "rowList m" r es] by (simp add: ascending_def)
  show ?thesis
  proof (cases "findRow r (rowList m)")
    case None
    then show ?thesis
      using s t by (simp add: look_def findRow_modifyRow findRow_touchRow)
  next
    case (Some es)
    then show ?thesis
      using s t e [OF Some] by (simp add: look_def findRow_modifyRow findRow_touchRow findCol_upsertCol)
  qed
qed

lemma look_erased_upd:
  assumes "ascending m"
  shows "look (m\<lparr>rowList := eraseCell r c (rowList m)\<rparr>) r' c' =
           (if r' = r \<and> c' = c then None else look m r' c')"
proof -
  define rl' where "rl' = modifyRow r (removeCol c) (rowList m)"
  have s: "sorted_wrt (<) (map row (rowList m))"
    using assms by (simp add: ascending_def)
  then have s': "sorted_wrt (<) (map row rl')"
    by (simp add: rl'_def map_row_modifyRow)
  have e: "sorted_wrt (<) (map col es)" if "findRow r (rowList m) = Some es" for es
    using assms that findRow_sorted [of "rowList m" r es] by (simp add: ascending_def)
  have 1: "(case findRow r' rl' of None \<Rightarrow> None | Some es \<Rightarrow> findCol c' es) =
           (if r' = r \<and> c' = c then None else look m r' c')"
  proof (cases "findRow r (rowList m)")
    case None
    then show ?thesis using s by (simp add: rl'_def look_def findRow_modifyRow)
  next
    case (Some es)
    then show ?thesis
      using s e [OF Some] by (simp add: rl'_def look_def findRow_modifyRow findCol_removeCol)
  qed
  have 2: "(case findRow r' (filter (\<lambda>n. elements n \<noteq> []) rl') of None \<Rightarrow> None | Some es \<Rightarrow> findCol c' es)
         = (case findRow r' rl' of None \<Rightarrow> None | Some es \<Rightarrow> findCol c' es)"
    using s' by (simp add: findRow_filter split: option.splits)
  have 3: "eraseCell r c (rowList m) =
      (if findRow r rl' = Some [] then filter (\<lambda>n. elements n \<noteq> []) rl' else rl')"
    by (simp add: eraseCell_def Let_def rl'_def)
  have "look (m\<lparr>rowList := eraseCell r c (rowList m)\<rparr>) r' c' =
       (case findRow r' rl' of None \<Rightarrow> None | Some es \<Rightarrow> findCol c' es)"
  proof (cases "findRow r rl' = Some []")
    case True
    then show ?thesis using 2 by (simp add: look_def 3)
  next
    case False
    then show ?thesis by (simp add: look_def 3)
  qed
  with 1 show ?thesis by simp
qed

text \<open>The effect of a successful insert on what is read.\<close>

lemma insertM_look:
  assumes "ascending m" "0 \<le> r" "r < rows m" "0 \<le> c" "c < cols m"
  shows "\<exists>m'. insertM m r c v = (None, m') \<and> rows m' = rows m \<and> cols m' = cols m \<and> ascending m'
           \<and> (\<forall>r' c'. look m' r' c' =
                 (if r' = r \<and> c' = c then (if \<bar>v\<bar> < eps then None else Some v) else look m r' c'))"
proof (cases "\<bar>v\<bar> < eps")
  case True
  with assms show ?thesis
    by (simp add: insertM_erased look_erased_upd ascending_erase)
next
  case False
  with assms show ?thesis
    by (simp add: insertM_stored look_stored_upd ascending_stored)
qed

section \<open>The stored cells\<close>

lemma entries_Nil: "entries [] = []"
  by (simp add: entries_def)

lemma entries_Cons:
  "entries (n # ns) = map (\<lambda>e. ((row n, col e), value e)) (elements n) @ entries ns"
  by (simp add: entries_def)

lemma entries_rows: "((r, c), v) \<in> set (entries rl) \<Longrightarrow> \<exists>n \<in> set rl. row n = r"
  by (induction rl) (auto simp add: entries_Nil entries_Cons)

lemma findCol_mem:
  "sorted_wrt (<) (map col es) \<Longrightarrow>
     (findCol c es = Some v) = (\<exists>e \<in> set es. col e = c \<and> value e = v)"
  by (induction es) (auto simp add: findCol_above)

lemma entries_mem:
  assumes "sorted_wrt (<) (map row rl)" "\<forall>n \<in> set rl. sorted_wrt (<) (map col (elements n))"
  shows "(((r, c), v) \<in> set (entries rl)) =
         ((case findRow r rl of None \<Rightarrow> None | Some es \<Rightarrow> findCol c es) = Some v)"
  using assms
proof (induction rl)
  case Nil
  then show ?case by (simp add: entries_Nil)
next
  case (Cons n ns)
  have a: "\<forall>x \<in> set ns. row n < row x" using Cons.prems by auto
  have no: "((r, c), v) \<notin> set (entries ns)" if "r \<le> row n"
  proof
    assume "((r, c), v) \<in> set (entries ns)"
    then obtain x where "x \<in> set ns" "row x = r" using entries_rows by blast
    with a that show False by auto
  qed
  have IH: "(((r, c), v) \<in> set (entries ns)) =
         ((case findRow r ns of None \<Rightarrow> None | Some es \<Rightarrow> findCol c es) = Some v)"
    using Cons by auto
  have fc: "(findCol c (elements n) = Some v) = (\<exists>e \<in> set (elements n). col e = c \<and> value e = v)"
    using Cons.prems by (intro findCol_mem) auto
  show ?case
    using IH no fc by (auto simp add: entries_Cons)
qed

lemma entries_look:
  "ascending m \<Longrightarrow> (((r, c), v) \<in> set (entries (rowList m))) = (look m r c = Some v)"
  unfolding look_def ascending_def by (rule entries_mem) auto

lemma distinct_row_entries:
  "sorted_wrt (<) (map col es) \<Longrightarrow> distinct (map fst (map (\<lambda>e. ((r, col e), value e)) es))"
  by (induction es) auto

lemma distinct_entries:
  assumes "sorted_wrt (<) (map row rl)" "\<forall>n \<in> set rl. sorted_wrt (<) (map col (elements n))"
  shows "distinct (map fst (entries rl))"
  using assms
proof (induction rl)
  case Nil
  then show ?case by (simp add: entries_Nil)
next
  case (Cons n ns)
  have a: "\<forall>x \<in> set ns. row n < row x" using Cons.prems by auto
  have no: "((row n, c), v) \<notin> set (entries ns)" for c v
  proof
    assume "((row n, c), v) \<in> set (entries ns)"
    then obtain x where "x \<in> set ns" "row x = row n" using entries_rows by blast
    with a show False by auto
  qed
  have d: "distinct (map fst (map (\<lambda>e. ((row n, col e), value e)) (elements n)))"
    using Cons.prems by (intro distinct_row_entries) auto
  have "distinct (map fst (entries ns))" using Cons by auto
  with d no show ?case
    by (auto simp add: entries_Cons)
qed

lemma map_of_entries:
  assumes "ascending m"
  shows "map_of (entries (rowList m)) (r, c) = look m r c"
proof -
  have d: "distinct (map fst (entries (rowList m)))"
    using assms unfolding ascending_def by (intro distinct_entries) auto
  show ?thesis
  proof (cases "look m r c")
    case None
    then have "\<And>v. ((r, c), v) \<notin> set (entries (rowList m))"
      using entries_look [OF assms] by simp
    then have "map_of (entries (rowList m)) (r, c) = None"
      by (meson map_of_SomeD not_Some_eq)
    with None show ?thesis by simp
  next
    case (Some v)
    then have "((r, c), v) \<in> set (entries (rowList m))"
      using entries_look [OF assms] by simp
    with d Some show ?thesis by simp
  qed
qed

lemma stored_entries: "stored m r c \<longleftrightarrow> (r, c) \<in> fst ` set (entries (rowList m))"
proof -
  have "(r, c) \<in> fst ` set (entries rl) \<longleftrightarrow>
        (\<exists>n \<in> set rl. row n = r \<and> (\<exists>e \<in> set (elements n). col e = c))" for rl
    by (induction rl) (auto simp add: entries_Nil entries_Cons image_Un image_image)
  then show ?thesis by (simp add: stored_def)
qed

lemma stored_look: "ascending m \<Longrightarrow> stored m r c \<longleftrightarrow> look m r c \<noteq> None"
  using entries_look [of m r c] by (force simp add: stored_entries)

lemma countNonZero_entries: "countNonZero m = int (length (entries (rowList m)))"
proof -
  have "(\<Sum>n\<leftarrow>rl. int (length (elements n))) = int (length (entries rl))" for rl
    by (induction rl) (simp_all add: entries_Nil entries_Cons)
  then show ?thesis by (simp add: countNonZero_def)
qed

lemma length_entries_modifyRow:
  "length (entries (modifyRow r f rl)) + (case findRow r rl of None \<Rightarrow> 0 | Some es \<Rightarrow> length es) =
   length (entries rl) + (case findRow r rl of None \<Rightarrow> 0 | Some es \<Rightarrow> length (f es))"
  by (induction rl) (simp_all add: entries_Nil entries_Cons)

lemma length_entries_touchRow: "length (entries (touchRow r rl)) = length (entries rl)"
  by (induction rl) (simp_all add: entries_Nil entries_Cons)

lemma entries_filter: "entries (filter (\<lambda>n. elements n \<noteq> []) rl) = entries rl"
  by (induction rl) (simp_all add: entries_Nil entries_Cons)

lemma length_removeCol:
  "sorted_wrt (<) (map col es) \<Longrightarrow>
     length (removeCol c es) + (if findCol c es = None then 0 else 1) = length es"
proof (induction es)
  case Nil
  then show ?case by simp
next
  case (Cons e es)
  from Cons.prems have s: "sorted_wrt (<) (map col es)" and a: "\<forall>x \<in> set es. col e < col x"
    by auto
  have ab: "findCol c es = None" if "c \<le> col e"
    using that a by (intro findCol_above) auto
  show ?case
    using Cons.IH [OF s] ab by auto
qed

lemma length_upsertCol:
  "sorted_wrt (<) (map col es) \<Longrightarrow>
     length (upsertCol c v es) = length es + (if findCol c es = None then 1 else 0)"
  by (induction es) auto

lemma length_entries_erased:
  assumes "ascending m"
  shows "length (entries (eraseCell r c (rowList m))) + (if look m r c = None then 0 else 1) =
         length (entries (rowList m))"
proof -
  have 1: "entries (eraseCell r c (rowList m)) = entries (modifyRow r (removeCol c) (rowList m))"
    by (simp add: eraseCell_def Let_def entries_filter)
  show ?thesis
  proof (cases "findRow r (rowList m)")
    case None
    then show ?thesis
      using length_entries_modifyRow [of r "removeCol c" "rowList m"] by (simp add: 1 look_def)
  next
    case (Some es)
    then have "sorted_wrt (<) (map col es)"
      using assms findRow_sorted [of "rowList m" r es] by (simp add: ascending_def)
    from length_removeCol [OF this, of c] Some show ?thesis
      using length_entries_modifyRow [of r "removeCol c" "rowList m"] by (simp add: 1 look_def)
  qed
qed

lemma length_entries_stored:
  assumes "ascending m"
  shows "length (entries (modifyRow r (upsertCol c v) (touchRow r (rowList m)))) =
         length (entries (rowList m)) + (if look m r c = None then 1 else 0)"
proof -
  define es0 where "es0 = (case findRow r (rowList m) of None \<Rightarrow> [] | Some es \<Rightarrow> es)"
  have s: "sorted_wrt (<) (map row (rowList m))"
    using assms by (simp add: ascending_def)
  have f: "findRow r (touchRow r (rowList m)) = Some es0"
    using s by (simp add: findRow_touchRow es0_def)
  have e: "sorted_wrt (<) (map col es0)"
    using assms findRow_sorted [of "rowList m" r] by (auto simp add: es0_def ascending_def split: option.splits)
  have l: "look m r c = findCol c es0"
    by (simp add: look_def es0_def split: option.splits)
  show ?thesis
    using length_entries_modifyRow [of r "upsertCol c v" "touchRow r (rowList m)"]
      length_upsertCol [OF e, of c v]
    by (simp add: f l length_entries_touchRow)
qed

text \<open>
  Writing a number and reading it back. On every matrix with ascending chains and every
  cell (r, c) within the dimensions, \<^verbatim>\<open>insert(r, c, v)\<close> with a real number \<open>v\<close>
  returns normally; if \<open>|v| \<ge> eps\<close> then \<^verbatim>\<open>get(r, c)\<close> returns exactly \<open>v\<close>
  afterwards (and the cell is stored and counted once); otherwise \<^verbatim>\<open>get(r, c)\<close>
  returns exactly 0, no cell is stored at (r, c), and \<^verbatim>\<open>countNonZero\<close> has dropped by
  one if a cell was stored there before and is unchanged if not.
\<close>

lemma insert_then_get:
  assumes "ascending m" "0 \<le> r" "r < rows m" "0 \<le> c" "c < cols m"
  shows "\<exists>m'. insertM m r c v = (None, m') \<and>
           (if eps \<le> \<bar>v\<bar> then
              get m' r c = Inr v \<and> stored m' r c \<and>
              countNonZero m' = countNonZero m + (if stored m r c then 0 else 1)
            else
              get m' r c = Inr 0 \<and> \<not> stored m' r c \<and>
              countNonZero m' = countNonZero m - (if stored m r c then 1 else 0))"
proof -
  from insertM_look [OF assms, of v] obtain m' where
    m': "insertM m r c v = (None, m')" "rows m' = rows m" "cols m' = cols m" "ascending m'"
      "look m' r c = (if \<bar>v\<bar> < eps then None else Some v)"
    by auto
  have g: "get m' r c = Inr (case look m' r c of None \<Rightarrow> 0 | Some v \<Rightarrow> v)"
    using assms m' by (intro get_look) auto
  show ?thesis
  proof (cases "\<bar>v\<bar> < eps")
    case True
    then have "m' = m\<lparr>rowList := eraseCell r c (rowList m)\<rparr>"
      using assms m'(1) by (simp add: insertM_erased)
    then have "countNonZero m' = countNonZero m - (if stored m r c then 1 else 0)"
      using length_entries_erased [OF assms(1), of r c]
      by (cases "look m r c") (simp_all add: countNonZero_entries stored_look [OF assms(1)])
    with True m' g show ?thesis
      by (simp add: stored_look)
  next
    case False
    then have "m' = m\<lparr>rowList := modifyRow r (upsertCol c v) (touchRow r (rowList m))\<rparr>"
      using assms m'(1) by (simp add: insertM_stored)
    then have "countNonZero m' = countNonZero m + (if stored m r c then 0 else 1)"
      using length_entries_stored [OF assms(1), of r c v]
      by (cases "look m r c") (simp_all add: countNonZero_entries stored_look [OF assms(1)])
    with False m' g show ?thesis
      by (simp add: stored_look)
  qed
qed

section \<open>Concrete instances\<close>

lemma ascending_M1: "ascending M1"
  by (simp add: ascending_def M1_def)

theorem inserts_keep_order_witness:
  "newSparseMatrix 3 3 = Inr (zeroMatrix 3 3)
   \<and> inserts (zeroMatrix 3 3) demoCalls =
       \<lparr>rows = 3, cols = 3, rowList =
          [\<lparr>row = 0, elements = [\<lparr>col = 1, value = 2\<rparr>]\<rparr>,
           \<lparr>row = 1, elements = [\<lparr>col = 0, value = 3\<rparr>]\<rparr>,
           \<lparr>row = 2, elements = []\<rparr>]\<rparr>
   \<and> sorted_wrt (<) (map row (rowList (inserts (zeroMatrix 3 3) demoCalls)))
   \<and> distinct (map row (rowList (inserts (zeroMatrix 3 3) demoCalls)))"
proof -
  have h: "newSparseMatrix 3 3 = Inr (zeroMatrix 3 3)"
    by (simp add: newSparseMatrix_def zeroMatrix_def)
  have e: "inserts (zeroMatrix 3 3) demoCalls =
       \<lparr>rows = 3, cols = 3, rowList =
          [\<lparr>row = 0, elements = [\<lparr>col = 1, value = 2\<rparr>]\<rparr>,
           \<lparr>row = 1, elements = [\<lparr>col = 0, value = 3\<rparr>]\<rparr>,
           \<lparr>row = 2, elements = []\<rparr>]\<rparr>"
    by code_simp
  from inserts_keep_order [OF h, of demoCalls] h e show ?thesis
    by blast
qed

lemma insert_then_get_M1:
  "ascending M1
   \<and> (\<exists>m'. insertM M1 1 0 5 = (None, m') \<and> get m' 1 0 = Inr 5 \<and> stored m' 1 0 \<and> countNonZero m' = 4)
   \<and> (\<exists>m'. insertM M1 1 0 0 = (None, m') \<and> get m' 1 0 = Inr 0 \<and> \<not> stored m' 1 0 \<and> countNonZero m' = 3)"
proof -
  have r: "(0::int) \<le> 1" "1 < rows M1" "(0::int) \<le> 0" "0 < cols M1"
    by (simp_all add: M1_def)
  have s: "stored M1 1 0" "countNonZero M1 = 4"
    by (simp_all add: stored_def countNonZero_def M1_def)
  have e: "eps \<le> \<bar>5\<bar>" "\<not> eps \<le> \<bar>0\<bar>"
    by (simp_all add: eps_def)
  from insert_then_get [OF ascending_M1 r, of 5] e s
  have 1: "\<exists>m'. insertM M1 1 0 5 = (None, m') \<and> get m' 1 0 = Inr 5 \<and> stored m' 1 0 \<and> countNonZero m' = 4"
    by simp
  from insert_then_get [OF ascending_M1 r, of 0] e s
  have 2: "\<exists>m'. insertM M1 1 0 0 = (None, m') \<and> get m' 1 0 = Inr 0 \<and> \<not> stored m' 1 0 \<and> countNonZero m' = 3"
    by simp
  from ascending_M1 1 2 show ?thesis by blast
qed

theorem variants_agree_witness:
  "newSparseMatrix_t 2 0 = Inl (invalid_argument ''Matrix dimensions must be positive'')
   \<and> insertM_t M1 1 0 0 =
       (None, \<lparr>rows = 2, cols = 2, rowList =
          [\<lparr>row = 0, elements = [\<lparr>col = 0, value = 1\<rparr>, \<lparr>col = 1, value = 2\<rparr>]\<rparr>,
           \<lparr>row = 1, elements = [\<lparr>col = 1, value = 4\<rparr>]\<rparr>]\<rparr>)
   \<and> get_t M1 1 0 = Inr 3
   \<and> add_t M1 M1 = Inr \<lparr>rows = 2, cols = 2, rowList =
          [\<lparr>row = 0, elements = [\<lparr>col = 0, value = 2\<rparr>, \<lparr>col = 1, value = 4\<rparr>]\<rparr>,
           \<lparr>row = 1, elements = [\<lparr>col = 0, value = 6\<rparr>, \<lparr>col = 1, value = 8\<rparr>]\<rparr>]\<rparr>
   \<and> scalarMultiply_t M1 2 = Inr \<lparr>rows = 2, cols = 2, rowList =
          [\<lparr>row = 0, elements = [\<lparr>col = 0, value = 2\<rparr>, \<lparr>col = 1, value = 4\<rparr>]\<rparr>,
           \<lparr>row = 1, elements = [\<lparr>col = 0, value = 6\<rparr>, \<lparr>col = 1, value = 8\<rparr>]\<rparr>]\<rparr>
   \<and> multiply_t M1 M1 = Inr \<lparr>rows = 2, cols = 2, rowList =
          [\<lparr>row = 0, elements = [\<lparr>col = 0, value = 7\<rparr>, \<lparr>col = 1, value = 10\<rparr>]\<rparr>,
           \<lparr>row = 1, elements = [\<lparr>col = 0, value = 15\<rparr>, \<lparr>col = 1, value = 22\<rparr>]\<rparr>]\<rparr>
   \<and> transposeM_t M1 = Inr \<lparr>rows = 2, cols = 2, rowList =
          [\<lparr>row = 0, elements = [\<lparr>col = 0, value = 1\<rparr>, \<lparr>col = 1, value = 3\<rparr>]\<rparr>,
           \<lparr>row = 1, elements = [\<lparr>col = 0, value = 2\<rparr>, \<lparr>col = 1, value = 4\<rparr>]\<rparr>]\<rparr>"
proof -
  have 1: "newSparseMatrix 2 0 = Inl (invalid_argument ''Matrix dimensions must be positive'')"
    by (simp add: newSparseMatrix_def)
  have 2: "insertM M1 1 0 0 =
       (None, \<lparr>rows = 2, cols = 2, rowList =
          [\<lparr>row = 0, elements = [\<lparr>col = 0, value = 1\<rparr>, \<lparr>col = 1, value = 2\<rparr>]\<rparr>,
           \<lparr>row = 1, elements = [\<lparr>col = 1, value = 4\<rparr>]\<rparr>]\<rparr>)"
    by code_simp
  have 3: "get M1 1 0 = Inr 3"
    by (rule M1_get)
  have 4: "add M1 M1 = Inr \<lparr>rows = 2, cols = 2, rowList =
          [\<lparr>row = 0, elements = [\<lparr>col = 0, value = 2\<rparr>, \<lparr>col = 1, value = 4\<rparr>]\<rparr>,
           \<lparr>row = 1, elements = [\<lparr>col = 0, value = 6\<rparr>, \<lparr>col = 1, value = 8\<rparr>]\<rparr>]\<rparr>"
    by code_simp
  have 5: "scalarMultiply M1 2 = Inr \<lparr>rows = 2, cols = 2, rowList =
          [\<lparr>row = 0, elements = [\<lparr>col = 0, value = 2\<rparr>, \<lparr>col = 1, value = 4\<rparr>]\<rparr>,
           \<lparr>row = 1, elements = [\<lparr>col = 0, value = 6\<rparr>, \<lparr>col = 1, value = 8\<rparr>]\<rparr>]\<rparr>"
    by code_simp
  have 6: "multiply M1 M1 = Inr \<lparr>rows = 2, cols = 2, rowList =
          [\<lparr>row = 0, elements = [\<lparr>col = 0, value = 7\<rparr>, \<lparr>col = 1, value = 10\<rparr>]\<rparr>,
           \<lparr>row = 1, elements = [\<lparr>col = 0, value = 15\<rparr>, \<lparr>col = 1, value = 22\<rparr>]\<rparr>]\<rparr>"
    by code_simp
  have 7: "transposeM M1 = Inr \<lparr>rows = 2, cols = 2, rowList =
          [\<lparr>row = 0, elements = [\<lparr>col = 0, value = 1\<rparr>, \<lparr>col = 1, value = 3\<rparr>]\<rparr>,
           \<lparr>row = 1, elements = [\<lparr>col = 0, value = 2\<rparr>, \<lparr>col = 1, value = 4\<rparr>]\<rparr>]\<rparr>"
    by code_simp
  from variants_agree [where r = 2 and c = 0]
    variants_agree [where r = 1 and c = 0 and m = M1 and v = 0 and m' = M1 and k = 2]
  show ?thesis
    unfolding 1 2 3 4 5 6 7 by blast
qed

theorem self_assignment_witness:
  "assign (\<lambda>a. M1) 0 0 = (\<lambda>a. M1) \<and> assign_t (\<lambda>a. M1) 0 0 = (\<lambda>a. M1)"
  by (rule self_assignment)

section \<open>Traversals\<close>

lemma foldE_append:
  "foldE body (xs @ ys) s = (case foldE body xs s of Inl e \<Rightarrow> Inl e | Inr s' \<Rightarrow> foldE body ys s')"
  by (induction xs arbitrary: s) (simp_all split: sum.splits)

lemma foldE_map: "foldE body (map h xs) s = foldE (\<lambda>x. body (h x)) xs s"
  by (induction xs arbitrary: s) (simp_all split: sum.splits)

lemma MatrixNode_eta: "\<lparr>col = col e, value = value e\<rparr> = (e::MatrixNode)"
  by (cases e) simp

lemma forEachCol_foldE:
  "forEachCol (body r) es s =
     foldE (\<lambda>((r, c), v). body r \<lparr>col = c, value = v\<rparr>) (map (\<lambda>e. ((r, col e), value e)) es) s"
  by (induction es arbitrary: s) (simp_all add: MatrixNode_eta split: sum.splits)

lemma forEachRow_foldE:
  "forEachRow body rl s = foldE (\<lambda>((r, c), v). body r \<lparr>col = c, value = v\<rparr>) (entries rl) s"
  by (induction rl arbitrary: s)
     (simp_all add: entries_Nil entries_Cons foldE_append forEachCol_foldE split: sum.splits)

lemma foldE_invariant:
  assumes "\<And>x s s'. P s \<Longrightarrow> x \<in> set xs \<Longrightarrow> body x s = Inr s' \<Longrightarrow> P s'"
    and "P s" "foldE body xs s = Inr s'"
  shows "P s'"
  using assms
proof (induction xs arbitrary: s)
  case Nil
  then show ?case by simp
next
  case (Cons x xs)
  from Cons.prems(3) obtain s1 where s1: "body x s = Inr s1" "foldE body xs s1 = Inr s'"
    by (auto split: sum.splits)
  have p1: "P s1" using Cons.prems(1) [OF Cons.prems(2) _ s1(1)] by simp
  show ?case
  proof (rule Cons.IH [of s1])
    fix y t t' assume "P t" "y \<in> set xs" "body y t = Inr t'"
    then show "P t'" using Cons.prems(1) [of t y t'] by simp
  next
    show "P s1" by (rule p1)
  next
    show "foldE body xs s1 = Inr s'" by (rule s1(2))
  qed
qed

text \<open>
  A traversal whose body rewrites the cell it is at, and nothing else, rewrites every cell
  of the list once when no cell is listed twice.
\<close>

lemma foldE_look:
  assumes step: "\<And>res r c v. ascending res \<Longrightarrow> rows res = R \<Longrightarrow> cols res = C \<Longrightarrow>
        0 \<le> r \<Longrightarrow> r < R \<Longrightarrow> 0 \<le> c \<Longrightarrow> c < C \<Longrightarrow>
        \<exists>res'. body ((r, c), v) res = Inr res' \<and> rows res' = R \<and> cols res' = C \<and> ascending res'
          \<and> (\<forall>r' c'. look res' r' c' = (if r' = r \<and> c' = c then g (look res r c) v else look res r' c'))"
    and res: "ascending res" "rows res = R" "cols res = C"
    and xs: "\<forall>((r, c), v) \<in> set xs. 0 \<le> r \<and> r < R \<and> 0 \<le> c \<and> c < C" "distinct (map fst xs)"
  shows "\<exists>res'. foldE body xs res = Inr res' \<and> rows res' = R \<and> cols res' = C \<and> ascending res'
          \<and> (\<forall>r c. look res' r c =
                (case map_of xs (r, c) of None \<Rightarrow> look res r c | Some v \<Rightarrow> g (look res r c) v))"
  using res xs
proof (induction xs arbitrary: res)
  case Nil
  then show ?case by simp
next
  case (Cons x xs)
  obtain r c v where x: "x = ((r, c), v)" by (cases x) auto
  have rng: "0 \<le> r" "r < R" "0 \<le> c" "c < C" using Cons.prems(4) x by auto
  from step [OF Cons.prems(1-3) rng, of v] obtain res1 where
    r1: "body ((r, c), v) res = Inr res1 \<and> rows res1 = R \<and> cols res1 = C \<and> ascending res1
      \<and> (\<forall>r' c'. look res1 r' c' = (if r' = r \<and> c' = c then g (look res r c) v else look res r' c'))"
    ..
  then have res1: "body ((r, c), v) res = Inr res1" "rows res1 = R" "cols res1 = C" "ascending res1"
      "\<And>r' c'. look res1 r' c' = (if r' = r \<and> c' = c then g (look res r c) v else look res r' c')"
    by (simp_all del: split_paired_All)
  have xs': "\<forall>((r, c), v) \<in> set xs. 0 \<le> r \<and> r < R \<and> 0 \<le> c \<and> c < C" "distinct (map fst xs)"
    using Cons.prems(4,5) by auto
  from Cons.IH [OF res1(4,2,3) xs'] obtain res' where
    r': "foldE body xs res1 = Inr res' \<and> rows res' = R \<and> cols res' = C \<and> ascending res'
      \<and> (\<forall>r c. look res' r c =
                (case map_of xs (r, c) of None \<Rightarrow> look res1 r c | Some v \<Rightarrow> g (look res1 r c) v))"
    ..
  then have res': "foldE body xs res1 = Inr res'" "rows res' = R" "cols res' = C" "ascending res'"
      "\<And>r c. look res' r c =
                (case map_of xs (r, c) of None \<Rightarrow> look res1 r c | Some v \<Rightarrow> g (look res1 r c) v)"
    by (simp_all del: split_paired_All)
  have fresh: "map_of xs (r, c) = None"
    using Cons.prems(5) x by (simp add: map_of_eq_None_iff)
  have "look res' r' c' =
          (case map_of (x # xs) (r', c') of None \<Rightarrow> look res r' c' | Some v \<Rightarrow> g (look res r' c') v)"
    for r' c'
  proof (cases "r' = r \<and> c' = c")
    case True
    have "look res1 r c = g (look res r c) v" using res1(5) [of r c] by simp
    moreover have "map_of (x # xs) (r, c) = Some v" using x by simp
    ultimately show ?thesis using res'(5) [of r c] fresh True by simp
  next
    case False
    then have "look res1 r' c' = look res r' c'" using res1(5) [of r' c'] by auto
    moreover have "map_of (x # xs) (r', c') = map_of xs (r', c')" using False x by auto
    ultimately show ?thesis using res'(5) [of r' c'] by (simp split: option.splits)
  qed
  moreover have "foldE body (x # xs) res = Inr res'"
    using res1(1) res'(1) x by simp
  ultimately show ?case using res'(2-4) by blast
qed

section \<open>The derived operations on the stored cells\<close>

lemma insertE_insertM:
  "insertE m r c v = Inr m' \<longleftrightarrow> insertM m r c v = (None, m')"
  by (cases "insertM m r c v") (auto simp add: insertE_def split: option.splits)

lemma insertE_step:
  assumes "ascending res" "rows res = R" "cols res = C" "0 \<le> r" "r < R" "0 \<le> c" "c < C"
  shows "\<exists>res'. insertE res r c v = Inr res' \<and> rows res' = R \<and> cols res' = C \<and> ascending res'
          \<and> (\<forall>r' c'. look res' r' c' = (if r' = r \<and> c' = c then suppress v else look res r' c'))"
proof -
  have rng: "0 \<le> r" "r < rows res" "0 \<le> c" "c < cols res" using assms by simp_all
  from insertM_look [OF assms(1) rng, of v] obtain m' where
    m: "insertM res r c v = (None, m') \<and> rows m' = rows res \<and> cols m' = cols res \<and> ascending m'
           \<and> (\<forall>r' c'. look m' r' c' =
                 (if r' = r \<and> c' = c then (if \<bar>v\<bar> < eps then None else Some v) else look res r' c'))"
    ..
  then have "insertE res r c v = Inr m'" by (simp add: insertE_insertM)
  with m assms(2,3) show ?thesis
    by (auto simp add: suppress_def)
qed

lemma combine_step:
  assumes "ascending res" "rows res = R" "cols res = C" "0 \<le> r" "r < R" "0 \<le> c" "c < C"
  shows "\<exists>res'. (case get res r c of Inl x \<Rightarrow> Inl x | Inr cur \<Rightarrow> insertE res r c (f cur v)) = Inr res'
          \<and> rows res' = R \<and> cols res' = C \<and> ascending res'
          \<and> (\<forall>r' c'. look res' r' c' =
                (if r' = r \<and> c' = c then suppress (f (valueOf (look res r c)) v) else look res r' c'))"
proof -
  have "get res r c = Inr (valueOf (look res r c))"
    using assms get_look [of r res c] by (simp add: valueOf_def)
  with insertE_step [OF assms, of "f (valueOf (look res r c)) v"] show ?thesis
    by simp
qed

lemma wellformed_insertE: "wellformed m \<Longrightarrow> insertE m r c v = Inr m' \<Longrightarrow> wellformed m'"
  using wellformed_insertM [of m r c v] by (simp add: insertE_insertM)

lemma entries_in_bounds:
  "in_bounds m \<Longrightarrow>
     \<forall>((r, c), v) \<in> set (entries (rowList m)). 0 \<le> r \<and> r < rows m \<and> 0 \<le> c \<and> c < cols m"
proof -
  have "\<forall>n \<in> set rl. 0 \<le> row n \<and> row n < R \<and> (\<forall>e \<in> set (elements n). 0 \<le> col e \<and> col e < C) \<Longrightarrow>
     \<forall>((r, c), v) \<in> set (entries rl). 0 \<le> r \<and> r < R \<and> 0 \<le> c \<and> c < C" for rl R C
    by (induction rl) (auto simp add: entries_Nil entries_Cons)
  then show "in_bounds m \<Longrightarrow> ?thesis"
    unfolding in_bounds_def by blast
qed

lemma entries_no_small:
  "no_small m \<Longrightarrow> ascending m \<Longrightarrow> look m r c = Some v \<Longrightarrow> suppress v = Some v"
proof -
  assume n: "no_small m" and a: "ascending m" and l: "look m r c = Some v"
  have "((r, c), v) \<in> set (entries rl) \<Longrightarrow>
        \<exists>n \<in> set rl. \<exists>e \<in> set (elements n). value e = v" for rl
    by (induction rl) (auto simp add: entries_Nil entries_Cons)
  moreover have "((r, c), v) \<in> set (entries (rowList m))"
    using entries_look [OF a] l by simp
  ultimately obtain n e where "n \<in> set (rowList m)" "e \<in> set (elements n)" "value e = v"
    by blast
  with n have "eps \<le> \<bar>v\<bar>" by (auto simp add: no_small_def)
  then show ?thesis by (simp add: suppress_def)
qed

lemma look_no_small:
  assumes "wellformed m"
  shows "(case look m r c of None \<Rightarrow> None | Some v \<Rightarrow> suppress v) = look m r c"
  using assms entries_no_small [of m r c]
  by (auto simp add: wellformed_def split: option.splits)

lemma look_new: "newSparseMatrix R C = Inr m \<Longrightarrow> look m r c = None"
  by (auto simp add: newSparseMatrix_def look_def split: if_splits)

lemma new_ok: "0 < R \<Longrightarrow> 0 < C \<Longrightarrow> newSparseMatrix R C = Inr \<lparr>rows = R, cols = C, rowList = []\<rparr>"
  by (simp add: newSparseMatrix_def)

text \<open>Inserting the stored cells of a matrix one by one into a matrix.\<close>

lemma insert_all:
  assumes "wellformed m" "ascending res" "rows res = rows m" "cols res = cols m"
  shows "\<exists>res'. forEachRow (\<lambda>r e s. insertE s r (col e) (value e)) (rowList m) res = Inr res'
          \<and> rows res' = rows m \<and> cols res' = cols m \<and> ascending res'
          \<and> (\<forall>r c. look res' r c = (case look m r c of None \<Rightarrow> look res r c | Some v \<Rightarrow> Some v))"
proof -
  have a: "ascending m" and b: "in_bounds m" using assms(1) by (simp_all add: wellformed_def)
  have d: "distinct (map fst (entries (rowList m)))"
    using a unfolding ascending_def by (intro distinct_entries) auto
  have "\<exists>res'. foldE (\<lambda>((r, c), v) s. insertE s r c v) (entries (rowList m)) res = Inr res'
          \<and> rows res' = rows m \<and> cols res' = cols m \<and> ascending res'
          \<and> (\<forall>r c. look res' r c =
               (case map_of (entries (rowList m)) (r, c) of None \<Rightarrow> look res r c
                | Some v \<Rightarrow> suppress v))"
  proof (rule foldE_look [where g = "\<lambda>old v. suppress v"])
    fix s r c v
    assume "ascending s" "rows s = rows m" "cols s = cols m" "0 \<le> r" "r < rows m" "0 \<le> c" "c < cols m"
    from insertE_step [OF this, of v]
    show "\<exists>res'. (case ((r, c), v) of (x, xa) \<Rightarrow> (case x of (r, c) \<Rightarrow> \<lambda>v s. insertE s r c v) xa) s = Inr res'
        \<and> rows res' = rows m \<and> cols res' = cols m \<and> ascending res'
        \<and> (\<forall>r' c'. look res' r' c' = (if r' = r \<and> c' = c then suppress v else look s r' c'))"
      by simp
  qed (use assms entries_in_bounds [OF b] d in auto)
  then obtain res' where r: "foldE (\<lambda>((r, c), v) s. insertE s r c v) (entries (rowList m)) res = Inr res'
          \<and> rows res' = rows m \<and> cols res' = cols m \<and> ascending res'
          \<and> (\<forall>r c. look res' r c =
               (case map_of (entries (rowList m)) (r, c) of None \<Rightarrow> look res r c
                | Some v \<Rightarrow> suppress v))" ..
  have "look res' r c = (case look m r c of None \<Rightarrow> look res r c | Some v \<Rightarrow> Some v)" for r c
  proof -
    have "look res' r c = (case look m r c of None \<Rightarrow> look res r c | Some v \<Rightarrow> suppress v)"
      using r by (simp add: map_of_entries [OF a] del: split_paired_All)
    then show ?thesis
      using entries_no_small [of m r c] assms(1)
      by (auto simp add: wellformed_def split: option.splits)
  qed
  moreover have "forEachRow (\<lambda>r e s. insertE s r (col e) (value e)) (rowList m) res = Inr res'"
    using r by (simp add: forEachRow_foldE)
  ultimately show ?thesis using r by blast
qed

section \<open>Transposition\<close>

lemma map_of_swap:
  "map_of (map (\<lambda>((r, c), v). ((c, r), v)) ys) (r, c) = map_of ys (c, r)"
  by (induction ys) auto

lemma distinct_swap:
  "distinct (map fst ys) \<Longrightarrow> distinct (map fst (map (\<lambda>((r, c), v). ((c, r), v)) ys))"
proof -
  assume d: "distinct (map fst ys)"
  have e: "map fst (map (\<lambda>((r, c), v). ((c, r), v)) ys) = map (\<lambda>(r, c). (c, r)) (map fst ys)"
    by (induction ys) auto
  have "distinct (map (\<lambda>(r, c). (c, r)) (map fst ys))"
    using d by (subst distinct_map) (auto simp add: inj_on_def)
  then show ?thesis unfolding e .
qed

lemma wellformed_empty: "0 < R \<Longrightarrow> 0 < C \<Longrightarrow> wellformed \<lparr>rows = R, cols = C, rowList = []\<rparr>"
  by (simp add: wellformed_def ascending_def in_bounds_def no_small_def)

lemma transposeM_look:
  assumes "wellformed M"
  shows "\<exists>T. transposeM M = Inr T \<and> rows T = cols M \<and> cols T = rows M \<and> wellformed T
           \<and> (\<forall>r c. look T r c = look M c r)"
proof -
  define res0 where "res0 = \<lparr>rows = cols M, cols = rows M, rowList = []\<rparr>"
  define xs where "xs = map (\<lambda>((r, c), v). ((c, r), v)) (entries (rowList M))"
  have a: "ascending M" and b: "in_bounds M" and p: "0 < rows M" "0 < cols M"
    using assms by (simp_all add: wellformed_def)
  have w0: "wellformed res0" unfolding res0_def using p by (intro wellformed_empty)
  have new: "newSparseMatrix (cols M) (rows M) = Inr res0"
    using p by (simp add: new_ok res0_def)
  have d: "distinct (map fst xs)"
    unfolding xs_def using a unfolding ascending_def
    by (intro distinct_swap distinct_entries) auto
  have rng: "\<forall>((r, c), v) \<in> set xs. 0 \<le> r \<and> r < cols M \<and> 0 \<le> c \<and> c < rows M"
    using entries_in_bounds [OF b] by (auto simp add: xs_def)
  have "\<exists>res'. foldE (\<lambda>((r, c), v) s. insertE s r c v) xs res0 = Inr res'
          \<and> rows res' = cols M \<and> cols res' = rows M \<and> ascending res'
          \<and> (\<forall>r c. look res' r c =
               (case map_of xs (r, c) of None \<Rightarrow> look res0 r c | Some v \<Rightarrow> suppress v))"
  proof (rule foldE_look [where g = "\<lambda>old v. suppress v"])
    fix s r c v
    assume "ascending s" "rows s = cols M" "cols s = rows M" "0 \<le> r" "r < cols M" "0 \<le> c" "c < rows M"
    from insertE_step [OF this, of v]
    show "\<exists>res'. (case ((r, c), v) of (x, xa) \<Rightarrow> (case x of (r, c) \<Rightarrow> \<lambda>v s. insertE s r c v) xa) s = Inr res'
        \<and> rows res' = cols M \<and> cols res' = rows M \<and> ascending res'
        \<and> (\<forall>r' c'. look res' r' c' = (if r' = r \<and> c' = c then suppress v else look s r' c'))"
      by simp
  next
    show "ascending res0" using w0 by (simp add: wellformed_def)
  qed (use rng d in \<open>auto simp add: res0_def\<close>)
  then obtain T where T: "foldE (\<lambda>((r, c), v) s. insertE s r c v) xs res0 = Inr T
          \<and> rows T = cols M \<and> cols T = rows M \<and> ascending T
          \<and> (\<forall>r c. look T r c =
               (case map_of xs (r, c) of None \<Rightarrow> look res0 r c | Some v \<Rightarrow> suppress v))" ..
  have f: "forEachRow (\<lambda>r e res. insertE res (col e) r (value e)) (rowList M) res0
           = foldE (\<lambda>((r, c), v) s. insertE s r c v) xs res0"
    by (simp add: forEachRow_foldE xs_def foldE_map case_prod_unfold)
  have t: "transposeM M = Inr T"
    using T by (simp add: transposeM_def new f)
  have l: "look T r c = look M c r" for r c
  proof -
    have 1: "look T r c = (case map_of xs (r, c) of None \<Rightarrow> look res0 r c | Some v \<Rightarrow> suppress v)"
      using T by (simp del: split_paired_All)
    have 2: "map_of xs (r, c) = look M c r"
      by (simp add: xs_def map_of_swap map_of_entries [OF a])
    have 3: "look res0 r c = None"
      by (simp add: res0_def look_def)
    have "look T r c = (case look M c r of None \<Rightarrow> None | Some v \<Rightarrow> suppress v)"
      unfolding 1 2 3 by (rule refl)
    then show ?thesis by (simp add: look_no_small [OF assms])
  qed
  have w: "wellformed T"
  proof (rule foldE_invariant [where P = wellformed and s = res0 and xs = xs
        and body = "\<lambda>((r, c), v) s. insertE s r c v"])
    fix x s s' assume "wellformed s" "(case x of (x, xa) \<Rightarrow> (case x of (r, c) \<Rightarrow> \<lambda>v s. insertE s r c v) xa) s = Inr s'"
    then show "wellformed s'"
      by (cases x) (auto intro: wellformed_insertE)
  next
    show "wellformed res0" by (rule w0)
  next
    show "foldE (\<lambda>((r, c), v) s. insertE s r c v) xs res0 = Inr T" using T by simp
  qed
  from t T l w show ?thesis by blast
qed

section \<open>Addition and subtraction\<close>

text \<open>Reading each stored cell of a matrix and writing it back combined with what is there.\<close>

lemma combine_all:
  assumes "wellformed m" "ascending res" "rows res = rows m" "cols res = cols m"
  shows "\<exists>res'. forEachRow
             (\<lambda>r e s. case get s r (col e) of Inl x \<Rightarrow> Inl x
                       | Inr cur \<Rightarrow> insertE s r (col e) (f cur (value e)))
             (rowList m) res = Inr res'
          \<and> rows res' = rows m \<and> cols res' = cols m \<and> ascending res'
          \<and> (\<forall>r c. look res' r c =
                (case look m r c of None \<Rightarrow> look res r c
                 | Some v \<Rightarrow> suppress (f (valueOf (look res r c)) v)))"
proof -
  have a: "ascending m" and b: "in_bounds m" using assms(1) by (simp_all add: wellformed_def)
  have d: "distinct (map fst (entries (rowList m)))"
    using a unfolding ascending_def by (intro distinct_entries) auto
  let ?body = "\<lambda>((r, c), v) s. case get s r c of Inl x \<Rightarrow> Inl x | Inr cur \<Rightarrow> insertE s r c (f cur v)"
  have "\<exists>res'. foldE ?body (entries (rowList m)) res = Inr res'
          \<and> rows res' = rows m \<and> cols res' = cols m \<and> ascending res'
          \<and> (\<forall>r c. look res' r c =
               (case map_of (entries (rowList m)) (r, c) of None \<Rightarrow> look res r c
                | Some v \<Rightarrow> suppress (f (valueOf (look res r c)) v)))"
  proof (rule foldE_look [where g = "\<lambda>old v. suppress (f (valueOf old) v)"])
    fix s r c v
    assume "ascending s" "rows s = rows m" "cols s = cols m" "0 \<le> r" "r < rows m" "0 \<le> c" "c < cols m"
    from combine_step [OF this, of f v]
    show "\<exists>res'. (case ((r, c), v) of (x, xa) \<Rightarrow> (case x of (r, c) \<Rightarrow> \<lambda>v s. case get s r c of Inl x \<Rightarrow> Inl x | Inr cur \<Rightarrow> insertE s r c (f cur v)) xa) s = Inr res'
        \<and> rows res' = rows m \<and> cols res' = cols m \<and> ascending res'
        \<and> (\<forall>r' c'. look res' r' c' =
              (if r' = r \<and> c' = c then suppress (f (valueOf (look s r c)) v) else look s r' c'))"
      by simp
  qed (use assms entries_in_bounds [OF b] d in auto)
  then obtain res' where r: "foldE ?body (entries (rowList m)) res = Inr res'
          \<and> rows res' = rows m \<and> cols res' = cols m \<and> ascending res'
          \<and> (\<forall>r c. look res' r c =
               (case map_of (entries (rowList m)) (r, c) of None \<Rightarrow> look res r c
                | Some v \<Rightarrow> suppress (f (valueOf (look res r c)) v)))" ..
  have "look res' r c =
      (case look m r c of None \<Rightarrow> look res r c | Some v \<Rightarrow> suppress (f (valueOf (look res r c)) v))"
    for r c
    using r by (simp add: map_of_entries [OF a] del: split_paired_All)
  moreover have "forEachRow
             (\<lambda>r e s. case get s r (col e) of Inl x \<Rightarrow> Inl x
                       | Inr cur \<Rightarrow> insertE s r (col e) (f cur (value e)))
             (rowList m) res = Inr res'"
    using r by (simp add: forEachRow_foldE cong: sum.case_cong)
  ultimately show ?thesis using r by blast
qed

text \<open>The two passes of \<^verbatim>\<open>add\<close> and \<^verbatim>\<open>subtract\<close>, for the operation \<open>f\<close> of the second pass.\<close>

lemma two_passes:
  assumes "wellformed A" "wellformed B" "rows A = rows B" "cols A = cols B"
  shows "\<exists>S. (case newSparseMatrix (rows A) (cols A) of
          Inl x \<Rightarrow> Inl x
        | Inr result \<Rightarrow>
            (case forEachRow (\<lambda>r e res. insertE res r (col e) (value e)) (rowList A) result of
               Inl x \<Rightarrow> Inl x
             | Inr result1 \<Rightarrow>
                 forEachRow
                   (\<lambda>r e res.
                      case get res r (col e) of
                        Inl x \<Rightarrow> Inl x
                      | Inr currentValue \<Rightarrow> insertE res r (col e) (f currentValue (value e)))
                   (rowList B) result1)) = Inr S
       \<and> rows S = rows A \<and> cols S = cols A \<and> ascending S
       \<and> (\<forall>r c. look S r c =
            (case look B r c of None \<Rightarrow> look A r c
             | Some v \<Rightarrow> suppress (f (valueOf (look A r c)) v)))"
proof -
  define res0 where "res0 = \<lparr>rows = rows A, cols = cols A, rowList = []\<rparr>"
  have p: "0 < rows A" "0 < cols A" using assms(1) by (simp_all add: wellformed_def)
  have new: "newSparseMatrix (rows A) (cols A) = Inr res0"
    using p by (simp add: new_ok res0_def)
  have w0: "ascending res0" "rows res0 = rows A" "cols res0 = cols A"
    by (simp_all add: res0_def ascending_def)
  have l0: "look res0 r c = None" for r c
    by (simp add: res0_def look_def)
  from insert_all [OF assms(1) w0] obtain res1 where
    r1: "forEachRow (\<lambda>r e s. insertE s r (col e) (value e)) (rowList A) res0 = Inr res1
          \<and> rows res1 = rows A \<and> cols res1 = cols A \<and> ascending res1
          \<and> (\<forall>r c. look res1 r c = (case look A r c of None \<Rightarrow> look res0 r c | Some v \<Rightarrow> Some v))" ..
  have l1: "look res1 r c = look A r c" for r c
    using r1 l0 by (simp split: option.splits)
  have d1: "ascending res1" "rows res1 = rows B" "cols res1 = cols B"
    using r1 assms(3,4) by simp_all
  from combine_all [OF assms(2) d1, of f] obtain S where
    S: "forEachRow
             (\<lambda>r e s. case get s r (col e) of Inl x \<Rightarrow> Inl x
                       | Inr cur \<Rightarrow> insertE s r (col e) (f cur (value e)))
             (rowList B) res1 = Inr S
          \<and> rows S = rows B \<and> cols S = cols B \<and> ascending S
          \<and> (\<forall>r c. look S r c =
                (case look B r c of None \<Rightarrow> look res1 r c
                 | Some v \<Rightarrow> suppress (f (valueOf (look res1 r c)) v)))" ..
  have "look S r c =
      (case look B r c of None \<Rightarrow> look A r c | Some v \<Rightarrow> suppress (f (valueOf (look A r c)) v))"
    for r c
    using S by (simp add: l1 cong: option.case_cong)
  with S r1 new assms(3,4) show ?thesis
    by simp
qed

text \<open>The value read from a cell of the sum and of the difference.\<close>

lemma get_two_passes:
  assumes "wellformed A" "wellformed B" "ascending S" "rows S = rows A" "cols S = cols A"
    "\<And>r c. look S r c =
            (case look B r c of None \<Rightarrow> look A r c
             | Some v \<Rightarrow> suppress (f (valueOf (look A r c)) v))"
    "\<And>x. f x 0 = x"
    "0 \<le> r" "r < rows A" "0 \<le> c" "c < cols A"
  shows "get S r c =
     Inr (let x = f (valueOf (look A r c)) (valueOf (look B r c)) in if \<bar>x\<bar> < eps then 0 else x)"
proof -
  have g: "get S r c = Inr (valueOf (look S r c))"
    using assms get_look [of r S c] by (simp add: valueOf_def)
  show ?thesis
  proof (cases "look B r c")
    case None
    note nb = this
    show ?thesis
    proof (cases "look A r c")
      case None
      with nb g assms(6,7) show ?thesis by (simp add: valueOf_def eps_def)
    next
      case (Some a)
      then have "suppress a = Some a"
        using assms(1) entries_no_small [of A r c a] by (simp add: wellformed_def)
      then have "\<not> \<bar>a\<bar> < eps" by (simp add: suppress_def split: if_splits)
      with Some nb g assms(6,7) show ?thesis by (simp add: valueOf_def)
    qed
  next
    case (Some b)
    with g assms(6) show ?thesis by (simp add: valueOf_def suppress_def Let_def)
  qed
qed

lemma add_look:
  assumes "wellformed A" "wellformed B" "rows A = rows B" "cols A = cols B"
  shows "\<exists>S. add A B = Inr S \<and> rows S = rows A \<and> cols S = cols A \<and> ascending S
       \<and> (\<forall>r c. look S r c =
            (case look B r c of None \<Rightarrow> look A r c
             | Some v \<Rightarrow> suppress (valueOf (look A r c) + v)))"
  using two_passes [OF assms, of "(+)"] assms(3,4) by (simp add: add_def)

lemma subtract_look:
  assumes "wellformed A" "wellformed B" "rows A = rows B" "cols A = cols B"
  shows "\<exists>S. subtract A B = Inr S \<and> rows S = rows A \<and> cols S = cols A \<and> ascending S
       \<and> (\<forall>r c. look S r c =
            (case look B r c of None \<Rightarrow> look A r c
             | Some v \<Rightarrow> suppress (valueOf (look A r c) - v)))"
  using two_passes [OF assms, of "(-)"] assms(3,4) by (simp add: subtract_def)

text \<open>
  Claim C6. For matrices of the public interface with the same dimensions, \<^verbatim>\<open>add\<close> in
  the two orders returns matrices of these dimensions on which \<^verbatim>\<open>get\<close> returns the same
  value at every cell within the dimensions; with different dimensions both orders throw
  the dimension error.
\<close>

theorem add_commutes:
  assumes "wellformed A" "wellformed B"
  shows "(rows A = rows B \<and> cols A = cols B \<longrightarrow>
           (\<exists>S S'. add A B = Inr S \<and> add B A = Inr S'
              \<and> rows S = rows A \<and> cols S = cols A \<and> rows S' = rows A \<and> cols S' = cols A
              \<and> (\<forall>r c. 0 \<le> r \<and> r < rows A \<and> 0 \<le> c \<and> c < cols A \<longrightarrow>
                    (\<exists>x. get S r c = Inr x \<and> get S' r c = Inr x))))
       \<and> (rows A \<noteq> rows B \<or> cols A \<noteq> cols B \<longrightarrow>
            add A B = Inl (invalid_argument ''Matrix dimensions do not match for addition'')
          \<and> add B A = Inl (invalid_argument ''Matrix dimensions do not match for addition''))"
proof (intro conjI impI)
  assume d: "rows A = rows B \<and> cols A = cols B"
  then have d1: "rows A = rows B" "cols A = cols B" and d2: "rows B = rows A" "cols B = cols A"
    by simp_all
  from add_look [OF assms d1] obtain S where
    S: "add A B = Inr S \<and> rows S = rows A \<and> cols S = cols A \<and> ascending S
       \<and> (\<forall>r c. look S r c =
            (case look B r c of None \<Rightarrow> look A r c
             | Some v \<Rightarrow> suppress (valueOf (look A r c) + v)))" ..
  from add_look [OF assms(2,1) d2] obtain S' where
    S': "add B A = Inr S' \<and> rows S' = rows B \<and> cols S' = cols B \<and> ascending S'
       \<and> (\<forall>r c. look S' r c =
            (case look A r c of None \<Rightarrow> look B r c
             | Some v \<Rightarrow> suppress (valueOf (look B r c) + v)))" ..
  have "\<exists>x. get S r c = Inr x \<and> get S' r c = Inr x"
    if rng: "0 \<le> r \<and> r < rows A \<and> 0 \<le> c \<and> c < cols A" for r c
  proof -
    have 1: "get S r c =
       Inr (let x = valueOf (look A r c) + valueOf (look B r c) in if \<bar>x\<bar> < eps then 0 else x)"
      using S rng by (intro get_two_passes [OF assms, where f = "(+)"]) simp_all
    have 2: "get S' r c =
       Inr (let x = valueOf (look B r c) + valueOf (look A r c) in if \<bar>x\<bar> < eps then 0 else x)"
      using S' rng d1 by (intro get_two_passes [OF assms(2,1), where f = "(+)"]) simp_all
    show ?thesis unfolding 1 2 by (simp add: add.commute)
  qed
  with S S' d show "\<exists>S S'. add A B = Inr S \<and> add B A = Inr S'
              \<and> rows S = rows A \<and> cols S = cols A \<and> rows S' = rows A \<and> cols S' = cols A
              \<and> (\<forall>r c. 0 \<le> r \<and> r < rows A \<and> 0 \<le> c \<and> c < cols A \<longrightarrow>
                    (\<exists>x. get S r c = Inr x \<and> get S' r c = Inr x))"
    by auto
next
  assume "rows A \<noteq> rows B \<or> cols A \<noteq> cols B"
  then show "add A B = Inl (invalid_argument ''Matrix dimensions do not match for addition'')"
    by (auto simp add: add_def)
next
  assume "rows A \<noteq> rows B \<or> cols A \<noteq> cols B"
  then show "add B A = Inl (invalid_argument ''Matrix dimensions do not match for addition'')"
    by (auto simp add: add_def)
qed

text \<open>
  Claim C7 asks that a cell of the difference reads as the difference of the two cells
  also when that difference is below the threshold. It does not: \<open>1 - (1 + 2\<^sup>-\<^sup>4\<^sup>0)\<close> is
  not stored, and the cell reads as 0.
\<close>

theorem subtract_below_threshold:
  "wellformed A0 \<and> wellformed B0 \<and> rows A0 = rows B0 \<and> cols A0 = cols B0
   \<and> get A0 0 0 = Inr 1 \<and> get B0 0 0 = Inr (1 + 1 / 2 ^ 40)
   \<and> \<bar>1 - (1 + 1 / 2 ^ 40)\<bar> < eps
   \<and> subtract A0 B0 = Inr (zeroMatrix 1 1)
   \<and> get (zeroMatrix 1 1) 0 0 = Inr 0
   \<and> (0::real) \<noteq> 1 - (1 + 1 / 2 ^ 40)"
proof -
  have "wellformed A0" "wellformed B0"
    by (simp_all add: wellformed_def ascending_def in_bounds_def no_small_def A0_def B0_def eps_def)
  moreover have "get A0 0 0 = Inr 1" "get B0 0 0 = Inr (1 + 1 / 2 ^ 40)"
    by (simp_all add: get_def A0_def B0_def)
  moreover have "subtract A0 B0 = Inr (zeroMatrix 1 1)"
    by (simp add: subtract_def newSparseMatrix_def A0_def B0_def insertE_def insertM_def
        getRowNode_def insertIntoRow_def removeFromRow_def setElements_def cleanupEmptyRows_def
        get_def eps_def zeroMatrix_def)
  moreover have "get (zeroMatrix 1 1) 0 0 = Inr 0"
    by (simp add: get_def zeroMatrix_def)
  ultimately show ?thesis
    by (simp add: A0_def B0_def eps_def)
qed

text \<open>
  Claim C7, amended. For matrices of the public interface with the same dimensions and
  every cell within them, \<^verbatim>\<open>get\<close> on \<^verbatim>\<open>subtract(A, B)\<close> returns the difference of what
  \<^verbatim>\<open>get\<close> returns on \<open>A\<close> and on \<open>B\<close> when the magnitude of that difference is at least
  the threshold, and 0 when it is below.
\<close>

theorem subtract_cellwise:
  assumes "wellformed A" "wellformed B" "rows A = rows B" "cols A = cols B"
    "0 \<le> r" "r < rows A" "0 \<le> c" "c < cols A"
  shows "\<exists>S a b. subtract A B = Inr S \<and> get A r c = Inr a \<and> get B r c = Inr b
           \<and> get S r c = Inr (if \<bar>a - b\<bar> < eps then 0 else a - b)"
proof -
  from subtract_look [OF assms(1-4)] obtain S where
    S: "subtract A B = Inr S \<and> rows S = rows A \<and> cols S = cols A \<and> ascending S
       \<and> (\<forall>r c. look S r c =
            (case look B r c of None \<Rightarrow> look A r c
             | Some v \<Rightarrow> suppress (valueOf (look A r c) - v)))" ..
  have 1: "get S r c =
       Inr (let x = valueOf (look A r c) - valueOf (look B r c) in if \<bar>x\<bar> < eps then 0 else x)"
    using S assms(5-8) by (intro get_two_passes [OF assms(1,2), where f = "(-)"]) simp_all
  have 2: "get A r c = Inr (valueOf (look A r c))"
    using assms get_look [of r A c] by (simp add: valueOf_def)
  have 3: "get B r c = Inr (valueOf (look B r c))"
    using assms get_look [of r B c] by (simp add: valueOf_def)
  from S 1 2 3 show ?thesis by (simp add: Let_def)
qed

section \<open>Concrete instances of the derived operations\<close>

lemma wellformed_M1: "wellformed M1"
  by (simp add: wellformed_def ascending_def in_bounds_def no_small_def M1_def eps_def)

lemma wellformed_M2: "wellformed M2"
  by (simp add: wellformed_def ascending_def in_bounds_def no_small_def M2_def eps_def)

lemma wellformed_zeroMatrix: "0 < R \<Longrightarrow> 0 < C \<Longrightarrow> wellformed (zeroMatrix R C)"
  by (simp add: zeroMatrix_def wellformed_empty)

theorem add_commutes_witness:
  "wellformed M1 \<and> wellformed M2 \<and> wellformed (zeroMatrix 2 3)
   \<and> (\<exists>S S'. add M1 M2 = Inr S \<and> add M2 M1 = Inr S' \<and> get S 0 1 = Inr 8 \<and> get S' 0 1 = Inr 8)
   \<and> add M1 (zeroMatrix 2 3) = Inl (invalid_argument ''Matrix dimensions do not match for addition'')
   \<and> add (zeroMatrix 2 3) M1 = Inl (invalid_argument ''Matrix dimensions do not match for addition'')"
proof -
  have z: "wellformed (zeroMatrix 2 3)" by (simp add: wellformed_zeroMatrix)
  have d: "rows M1 = rows M2 \<and> cols M1 = cols M2" by (simp add: M1_def M2_def)
  have rng: "(0::int) \<le> 0 \<and> 0 < rows M1 \<and> (0::int) \<le> 1 \<and> 1 < cols M1" by (simp add: M1_def)
  from add_commutes [OF wellformed_M1 wellformed_M2] d obtain S S' where
    S: "add M1 M2 = Inr S" "add M2 M1 = Inr S'"
    and g: "\<forall>r c. 0 \<le> r \<and> r < rows M1 \<and> 0 \<le> c \<and> c < cols M1 \<longrightarrow>
                    (\<exists>x. get S r c = Inr x \<and> get S' r c = Inr x)"
    by blast
  from g rng obtain x where x: "get S 0 1 = Inr x" "get S' 0 1 = Inr x" by blast
  have "add M1 M2 = Inr \<lparr>rows = 2, cols = 2, rowList =
          [\<lparr>row = 0, elements = [\<lparr>col = 0, value = 6\<rparr>, \<lparr>col = 1, value = 8\<rparr>]\<rparr>,
           \<lparr>row = 1, elements = [\<lparr>col = 0, value = 10\<rparr>, \<lparr>col = 1, value = 12\<rparr>]\<rparr>]\<rparr>"
    by code_simp
  with S(1) have "get S 0 1 = Inr 8" by (auto simp add: get_def)
  with x have v: "get S 0 1 = Inr 8" "get S' 0 1 = Inr 8" by simp_all
  have m: "rows M1 \<noteq> rows (zeroMatrix 2 3) \<or> cols M1 \<noteq> cols (zeroMatrix 2 3)"
    by (simp add: M1_def zeroMatrix_def)
  from add_commutes [OF wellformed_M1 z] m
  have e: "add M1 (zeroMatrix 2 3) = Inl (invalid_argument ''Matrix dimensions do not match for addition'')"
    "add (zeroMatrix 2 3) M1 = Inl (invalid_argument ''Matrix dimensions do not match for addition'')"
    by blast+
  from wellformed_M1 wellformed_M2 z S v e show ?thesis by blast
qed

theorem subtract_cellwise_witness:
  "wellformed M1 \<and> wellformed M2 \<and> (\<exists>S. subtract M1 M2 = Inr S \<and> get S 0 1 = Inr (- 4))"
proof -
  have h: "rows M1 = rows M2" "cols M1 = cols M2" "(0::int) \<le> 0" "0 < rows M1" "(0::int) \<le> 1" "1 < cols M1"
    by (simp_all add: M1_def M2_def)
  from subtract_cellwise [OF wellformed_M1 wellformed_M2 h] obtain S a b where
    S: "subtract M1 M2 = Inr S" "get M1 0 1 = Inr a" "get M2 0 1 = Inr b"
      "get S 0 1 = Inr (if \<bar>a - b\<bar> < eps then 0 else a - b)"
    by blast
  have "a = 2" using S(2) by (simp add: M1_get)
  moreover have "b = 6" using S(3) by (simp add: M2_def get_def)
  ultimately have "get S 0 1 = Inr (- 4)" using S(4) by (simp add: eps_def)
  with S(1) wellformed_M1 wellformed_M2 show ?thesis by blast
qed

section \<open>Empty rows\<close>

text \<open>
  An insert that returns normally leaves no empty row behind; only the insert that throws
  the column error does.
\<close>

lemma upsertCol_not_Nil: "upsertCol c v es \<noteq> []"
  by (cases es) auto

lemma nonempty_stored:
  "\<forall>n \<in> set rl. elements n \<noteq> [] \<Longrightarrow>
     \<forall>n \<in> set (modifyRow r (upsertCol c v) (touchRow r rl)). elements n \<noteq> []"
  by (induction rl) (auto simp add: upsertCol_not_Nil)

lemma nonempty_modified:
  "\<forall>n \<in> set rl. elements n \<noteq> [] \<Longrightarrow> findRow r (modifyRow r f rl) \<noteq> Some [] \<Longrightarrow>
     \<forall>n \<in> set (modifyRow r f rl). elements n \<noteq> []"
  by (induction rl) (auto split: if_splits)

lemma nonempty_erased:
  "\<forall>n \<in> set rl. elements n \<noteq> [] \<Longrightarrow> \<forall>n \<in> set (eraseCell r c rl). elements n \<noteq> []"
  using nonempty_modified [of rl r "removeCol c"]
  by (auto simp add: eraseCell_def Let_def)

lemma no_empty_rows_insertM:
  assumes "no_empty_rows m" "fst (insertM m r c v) = None"
  shows "no_empty_rows (snd (insertM m r c v))"
proof (rule insertM_cases [where r = r and m = m and c = c and v = v])
  assume "insertM m r c v = (Some (out_of_range ''Row index out of range''), m)"
  with assms show ?thesis by simp
next
  assume "insertM m r c v = (None, m\<lparr>rowList := eraseCell r c (rowList m)\<rparr>)"
  with assms nonempty_erased [of "rowList m" r c] show ?thesis
    by (simp add: no_empty_rows_def)
next
  assume "insertM m r c v =
         (Some (out_of_range ''Column index out of range''), m\<lparr>rowList := touchRow r (rowList m)\<rparr>)"
  with assms show ?thesis by simp
next
  assume "insertM m r c v = (None, m\<lparr>rowList := modifyRow r (upsertCol c v) (touchRow r (rowList m))\<rparr>)"
  with assms nonempty_stored [of "rowList m" r c v] show ?thesis
    by (simp add: no_empty_rows_def)
qed

lemma no_empty_rows_insertE: "no_empty_rows m \<Longrightarrow> insertE m r c v = Inr m' \<Longrightarrow> no_empty_rows m'"
  using no_empty_rows_insertM [of m r c v] by (simp add: insertE_insertM)

section \<open>Every matrix an operation returns satisfies the invariant\<close>

lemma proper_insertE: "proper m \<Longrightarrow> insertE m r c v = Inr m' \<Longrightarrow> proper m'"
  unfolding proper_def using wellformed_insertE no_empty_rows_insertE by blast

lemma proper_new: "newSparseMatrix R C = Inr m \<Longrightarrow> proper m"
  using wellformed_new [of R C m]
  by (auto simp add: proper_def no_empty_rows_def newSparseMatrix_def split: if_splits)

lemma forEachRow_invariant:
  assumes "\<And>r e s s'. P s \<Longrightarrow> body r e s = Inr s' \<Longrightarrow> P s'"
    and "P s" "forEachRow body rl s = Inr s'"
  shows "P s'"
proof (rule foldE_invariant [where P = P and s = s and xs = "entries rl"
      and body = "\<lambda>((r, c), v). body r \<lparr>col = c, value = v\<rparr>"])
  fix x t t'
  assume "P t" "(case x of (x, xa) \<Rightarrow> (case x of (r, c) \<Rightarrow> \<lambda>v. body r \<lparr>col = c, value = v\<rparr>) xa) t = Inr t'"
  then show "P t'" by (cases x) (auto intro: assms(1))
next
  show "P s" by (rule assms(2))
next
  show "foldE (\<lambda>((r, c), v). body r \<lparr>col = c, value = v\<rparr>) (entries rl) s = Inr s'"
    using assms(3) by (simp add: forEachRow_foldE)
qed

lemma proper_transposeM: "transposeM M = Inr T \<Longrightarrow> proper T"
proof -
  assume t: "transposeM M = Inr T"
  then obtain res0 where n: "newSparseMatrix (cols M) (rows M) = Inr res0"
    and f: "forEachRow (\<lambda>r e res. insertE res (col e) r (value e)) (rowList M) res0 = Inr T"
    by (auto simp add: transposeM_def split: sum.splits)
  show ?thesis
    by (rule forEachRow_invariant [where P = proper, OF _ proper_new [OF n] f]) (rule proper_insertE)
qed

lemma proper_two_passes:
  assumes "(case newSparseMatrix R C of
          Inl x \<Rightarrow> Inl x
        | Inr result \<Rightarrow>
            (case forEachRow (\<lambda>r e res. insertE res r (col e) (value e)) rlA result of
               Inl x \<Rightarrow> Inl x
             | Inr result1 \<Rightarrow>
                 forEachRow
                   (\<lambda>r e res.
                      case get res r (col e) of
                        Inl x \<Rightarrow> Inl x
                      | Inr currentValue \<Rightarrow> insertE res r (col e) (f currentValue (value e)))
                   rlB result1)) = Inr S"
  shows "proper S"
proof -
  from assms obtain res0 res1 where n: "newSparseMatrix R C = Inr res0"
    and 1: "forEachRow (\<lambda>r e res. insertE res r (col e) (value e)) rlA res0 = Inr res1"
    and 2: "forEachRow
                   (\<lambda>r e res.
                      case get res r (col e) of
                        Inl x \<Rightarrow> Inl x
                      | Inr currentValue \<Rightarrow> insertE res r (col e) (f currentValue (value e)))
                   rlB res1 = Inr S"
    by (auto split: sum.splits)
  have p1: "proper res1"
    by (rule forEachRow_invariant [where P = proper, OF _ proper_new [OF n] 1]) (rule proper_insertE)
  show ?thesis
  proof (rule forEachRow_invariant [where P = proper, OF _ p1 2])
    fix r e s s'
    assume "proper s" "(case get s r (col e) of Inl x \<Rightarrow> Inl x
            | Inr currentValue \<Rightarrow> insertE s r (col e) (f currentValue (value e))) = Inr s'"
    then show "proper s'"
      by (auto split: sum.splits intro: proper_insertE)
  qed
qed

lemma proper_add: "add A B = Inr S \<Longrightarrow> proper S"
  by (rule proper_two_passes [where f = "(+)" and R = "rows A" and C = "cols A"
        and rlA = "rowList A" and rlB = "rowList B"])
     (simp add: add_def split: if_splits)

lemma proper_subtract: "subtract A B = Inr S \<Longrightarrow> proper S"
  by (rule proper_two_passes [where f = "(-)" and R = "rows A" and C = "cols A"
        and rlA = "rowList A" and rlB = "rowList B"])
     (simp add: subtract_def split: if_splits)

lemma proper_scalarMultiply: "scalarMultiply A k = Inr S \<Longrightarrow> proper S"
proof -
  assume s: "scalarMultiply A k = Inr S"
  then obtain res0 where n: "newSparseMatrix (rows A) (cols A) = Inr res0"
    by (auto simp add: scalarMultiply_def split: sum.splits)
  show ?thesis
  proof (cases "\<bar>k\<bar> < eps")
    case True
    with s n have "S = res0" by (simp add: scalarMultiply_def)
    with proper_new [OF n] show ?thesis by simp
  next
    case False
    with s n have f: "forEachRow
              (\<lambda>r e res.
                 let newValue = value e * k in
                 if \<bar>newValue\<bar> \<ge> eps then insertE res r (col e) newValue else Inr res)
              (rowList A) res0 = Inr S"
      by (simp add: scalarMultiply_def)
    show ?thesis
    proof (rule forEachRow_invariant [where P = proper, OF _ proper_new [OF n] f])
      fix r e s s'
      assume "proper s" "(let newValue = value e * k in
            if eps \<le> \<bar>newValue\<bar> then insertE s r (col e) newValue else Inr s) = Inr s'"
      then show "proper s'"
        by (auto simp add: Let_def split: if_splits intro: proper_insertE)
    qed
  qed
qed

lemma proper_columnLoop:
  "proper result \<Longrightarrow> columnLoop other i es j result = Inr result' \<Longrightarrow> proper result'"
proof (induction other i es j result rule: columnLoop.induct)
  case (1 other i es j result)
  show ?case
  proof (cases "j < cols other")
    case False
    with "1.prems" show ?thesis by (simp add: columnLoop.simps)
  next
    case True
    from "1.prems"(2) True obtain acc r1 where
      d: "dotRow other j es 0 = Inr acc"
      and s: "(if \<bar>acc\<bar> \<ge> eps then insertE result i j acc else Inr result) = Inr r1"
      and l: "columnLoop other i es (j + 1) r1 = Inr result'"
      by (subst (asm) columnLoop.simps) (auto split: sum.splits)
    have "proper r1"
      using s "1.prems"(1) by (auto split: if_splits intro: proper_insertE)
    with "1.IH" [OF True d s] l show ?thesis by simp
  qed
qed

lemma proper_rowLoop:
  "proper result \<Longrightarrow> rowLoop other ns result = Inr result' \<Longrightarrow> proper result'"
  by (induction ns arbitrary: result) (auto split: sum.splits dest: proper_columnLoop)

lemma proper_multiply: "multiply A B = Inr S \<Longrightarrow> proper S"
  by (auto simp add: multiply_def split: if_splits sum.splits
      dest: proper_new proper_rowLoop)

section \<open>Ascending chains without empty rows are determined by what is read\<close>

lemma findCol_head: "findCol (col e) (e # es) = Some (value e)"
  by simp

lemma findCol_unique:
  "sorted_wrt (<) (map col es) \<Longrightarrow> sorted_wrt (<) (map col es') \<Longrightarrow>
     (\<And>c. findCol c es = findCol c es') \<Longrightarrow> es = es'"
proof (induction es arbitrary: es')
  case Nil
  show ?case
  proof (cases es')
    case Nil
    then show ?thesis by simp
  next
    case (Cons e' es1')
    with Nil.prems(3) [of "col e'"] show ?thesis by simp
  qed
next
  case (Cons e es1)
  show ?case
  proof (cases es')
    case Nil
    with Cons.prems(3) [of "col e"] show ?thesis by simp
  next
    case (Cons e' es1')
    have a: "\<forall>x \<in> set es1. col e < col x" and s: "sorted_wrt (<) (map col es1)"
      using Cons.prems(1) by auto
    have a': "\<forall>x \<in> set es1'. col e' < col x" and s': "sorted_wrt (<) (map col es1')"
      using Cons.prems(2) Cons by auto
    have 1: "\<not> col e < col e'"
      using Cons.prems(3) [of "col e"] Cons by (auto split: if_splits)
    have 2: "\<not> col e' < col e"
      using Cons.prems(3) [of "col e'"] Cons by (auto split: if_splits)
    from 1 2 have c: "col e = col e'" by simp
    have v: "value e = value e'"
      using Cons.prems(3) [of "col e"] Cons c by simp
    from c v have e: "e = e'" by simp
    have "findCol k es1 = findCol k es1'" for k
    proof (cases "col e < k")
      case True
      with Cons.prems(3) [of k] Cons e show ?thesis by simp
    next
      case False
      then have "findCol k es1 = None" "findCol k es1' = None"
        using a a' e by (auto intro!: findCol_above)
      then show ?thesis by simp
    qed
    from Cons.IH [OF s s' this] e Cons show ?thesis by simp
  qed
qed

lemma rows_unique:
  assumes "sorted_wrt (<) (map row rl)" "sorted_wrt (<) (map row rl')"
    "\<forall>n \<in> set rl. sorted_wrt (<) (map col (elements n)) \<and> elements n \<noteq> []"
    "\<forall>n \<in> set rl'. sorted_wrt (<) (map col (elements n)) \<and> elements n \<noteq> []"
    "\<And>r c. (case findRow r rl of None \<Rightarrow> None | Some es \<Rightarrow> findCol c es) =
            (case findRow r rl' of None \<Rightarrow> None | Some es \<Rightarrow> findCol c es)"
  shows "rl = rl'"
  using assms
proof (induction rl arbitrary: rl')
  case Nil
  show ?case
  proof (cases rl')
    case Nil
    then show ?thesis by simp
  next
    case (Cons n' ns')
    then obtain e' es' where "elements n' = e' # es'"
      using Nil.prems(4) by (cases "elements n'") auto
    with Nil.prems(5) [where r = "row n'" and c = "col e'"] Cons show ?thesis by simp
  qed
next
  case (Cons n ns)
  obtain e es where e: "elements n = e # es"
    using Cons.prems(3) by (cases "elements n") auto
  show ?case
  proof (cases rl')
    case Nil
    with Cons.prems(5) [where r = "row n" and c = "col e"] e show ?thesis by simp
  next
    case (Cons n' ns')
    obtain e' es' where e': "elements n' = e' # es'"
      using Cons.prems(4) Cons by (cases "elements n'") auto
    have a: "\<forall>x \<in> set ns. row n < row x" and s: "sorted_wrt (<) (map row ns)"
      using Cons.prems(1) by auto
    have a': "\<forall>x \<in> set ns'. row n' < row x" and s': "sorted_wrt (<) (map row ns')"
      using Cons.prems(2) Cons by auto
    have 1: "\<not> row n < row n'"
      using Cons.prems(5) [where r = "row n" and c = "col e"] Cons e by (auto split: if_splits)
    have 2: "\<not> row n' < row n"
      using Cons.prems(5) [where r = "row n'" and c = "col e'"] Cons e' by (auto split: if_splits)
    from 1 2 have r: "row n = row n'" by simp
    have "findCol k (elements n) = findCol k (elements n')" for k
      using Cons.prems(5) [where r = "row n" and c = k] Cons r by simp
    moreover have "sorted_wrt (<) (map col (elements n))" "sorted_wrt (<) (map col (elements n'))"
      using Cons.prems(3,4) Cons by auto
    ultimately have "elements n = elements n'"
      by (intro findCol_unique)
    with r have n: "n = n'" by simp
    have t: "(case findRow k ns of None \<Rightarrow> None | Some es \<Rightarrow> findCol c es) =
            (case findRow k ns' of None \<Rightarrow> None | Some es \<Rightarrow> findCol c es)" for k c
    proof (cases "row n < k")
      case True
      with Cons.prems(5) [where r = k and c = c] Cons n show ?thesis by simp
    next
      case False
      then have "findRow k ns = None" "findRow k ns' = None"
        using a a' n by (auto intro!: findRow_above)
      then show ?thesis by simp
    qed
    have "ns = ns'"
      using Cons.prems(3,4) Cons by (intro Cons.IH [OF s s' _ _ t]) auto
    with n Cons show ?thesis by simp
  qed
qed

lemma proper_unique:
  assumes "proper A" "proper B" "rows A = rows B" "cols A = cols B"
    "\<And>r c. look A r c = look B r c"
  shows "A = B"
proof -
  have "rowList A = rowList B"
    using assms unfolding proper_def wellformed_def ascending_def no_empty_rows_def look_def
    by (intro rows_unique) auto
  with assms(3,4) show ?thesis by simp
qed

section \<open>Transposing twice\<close>

text \<open>
  Claim C8. For every matrix of the public interface, the transpose of the transpose has
  the dimensions of the matrix, the same set of stored cells and the same value at each
  of them; when the matrix holds no empty row, it is the matrix itself, row chain for row
  chain.
\<close>

theorem transpose_twice:
  assumes "wellformed M"
  shows "\<exists>T TT. transposeM M = Inr T \<and> transposeM T = Inr TT
           \<and> rows TT = rows M \<and> cols TT = cols M
           \<and> set (entries (rowList TT)) = set (entries (rowList M))
           \<and> (no_empty_rows M \<longrightarrow> TT = M)"
proof -
  from transposeM_look [OF assms] obtain T where
    T: "transposeM M = Inr T \<and> rows T = cols M \<and> cols T = rows M \<and> wellformed T
           \<and> (\<forall>r c. look T r c = look M c r)" ..
  then have wT: "wellformed T" by simp
  from transposeM_look [OF wT] obtain TT where
    TT: "transposeM T = Inr TT \<and> rows TT = cols T \<and> cols TT = rows T \<and> wellformed TT
           \<and> (\<forall>r c. look TT r c = look T c r)" ..
  have aM: "ascending M" and aTT: "ascending TT"
    using assms TT by (simp_all add: wellformed_def)
  have l: "look TT r c = look M r c" for r c
    using T TT by simp
  have "(x \<in> set (entries (rowList TT))) = (x \<in> set (entries (rowList M)))" for x
  proof -
    obtain r c v where x: "x = ((r, c), v)" by (cases x) auto
    show ?thesis
      unfolding x entries_look [OF aM] entries_look [OF aTT] l by (rule refl)
  qed
  then have s: "set (entries (rowList TT)) = set (entries (rowList M))" by blast
  have "TT = M" if "no_empty_rows M"
  proof (rule proper_unique)
    show "proper TT" using TT by (intro proper_transposeM [of T]) simp
    show "proper M" using assms that by (simp add: proper_def)
    show "rows TT = rows M" "cols TT = cols M" using T TT by simp_all
    show "look TT r c = look M r c" for r c by (rule l)
  qed
  with s T TT show ?thesis by auto
qed

lemma wellformed_M3: "wellformed M3"
  by (simp add: wellformed_def ascending_def in_bounds_def no_small_def M3_def eps_def)

text \<open>An empty row, as a throwing insert leaves it, does not come back.\<close>

lemma transpose_twice_drops_empty_row:
  "transposeM M3 = Inr \<lparr>rows = 3, cols = 3, rowList =
          [\<lparr>row = 0, elements = [\<lparr>col = 1, value = 3\<rparr>]\<rparr>,
           \<lparr>row = 1, elements = [\<lparr>col = 0, value = 2\<rparr>]\<rparr>]\<rparr>
   \<and> transposeM \<lparr>rows = 3, cols = 3, rowList =
          [\<lparr>row = 0, elements = [\<lparr>col = 1, value = 3\<rparr>]\<rparr>,
           \<lparr>row = 1, elements = [\<lparr>col = 0, value = 2\<rparr>]\<rparr>]\<rparr> =
       Inr \<lparr>rows = 3, cols = 3, rowList =
          [\<lparr>row = 0, elements = [\<lparr>col = 1, value = 2\<rparr>]\<rparr>,
           \<lparr>row = 1, elements = [\<lparr>col = 0, value = 3\<rparr>]\<rparr>]\<rparr>"
  by code_simp

theorem transpose_twice_witness:
  "wellformed M1 \<and> no_empty_rows M1
   \<and> (\<exists>T. transposeM M1 = Inr T \<and> transposeM T = Inr M1)
   \<and> wellformed M3
   \<and> (\<exists>T TT. transposeM M3 = Inr T \<and> transposeM T = Inr TT \<and> rows TT = 3 \<and> cols TT = 3
        \<and> set (entries (rowList TT)) = {((0, 1), 2), ((1, 0), 3)})"
proof -
  have n: "no_empty_rows M1" by (simp add: no_empty_rows_def M1_def)
  from transpose_twice [OF wellformed_M1] n
  have 1: "\<exists>T. transposeM M1 = Inr T \<and> transposeM T = Inr M1" by blast
  from transpose_twice [OF wellformed_M3] obtain T TT where
    t: "transposeM M3 = Inr T" "transposeM T = Inr TT" "rows TT = rows M3" "cols TT = cols M3"
      "set (entries (rowList TT)) = set (entries (rowList M3))"
    by blast
  have "set (entries (rowList M3)) = {((0, 1), 2), ((1, 0), 3)}"
    by (simp add: entries_def M3_def)
  with t have 2: "\<exists>T TT. transposeM M3 = Inr T \<and> transposeM T = Inr TT \<and> rows TT = 3 \<and> cols TT = 3
        \<and> set (entries (rowList TT)) = {((0, 1), 2), ((1, 0), 3)}"
    by (auto simp add: M3_def)
  from wellformed_M1 n 1 wellformed_M3 2 show ?thesis by blast
qed

section \<open>The two embeddings of the storage engine agree on finite values\<close>

lemma asDouble_simps [simp]:
  "rows_d (asDouble m) = rows m" "cols_d (asDouble m) = cols m"
  "rowList_d (asDouble m) = map rowAsDouble (rowList m)"
  "row_d (rowAsDouble n) = row n" "elements_d (rowAsDouble n) = map cellAsDouble (elements n)"
  "col_d (cellAsDouble e) = col e" "value_d (cellAsDouble e) = Finite (value e)"
  by (simp_all add: asDouble_def rowAsDouble_def cellAsDouble_def)

lemma skipRows_d_map [simp]: "skipRows_d (map rowAsDouble rl) r = skipRows rl r"
  by (induction rl) simp_all

lemma skipCols_d_map [simp]: "skipCols_d (map cellAsDouble es) c = skipCols es c"
  by (induction es) simp_all

lemma seekCol_d_map [simp]: "seekCol_d (map cellAsDouble es) c = seekCol es c"
  by (induction es) simp_all

lemma dropEmptyHead_d_map [simp]:
  "dropEmptyHead_d (map rowAsDouble rl) = map rowAsDouble (dropEmptyHead rl)"
  by (induction rl) simp_all

lemma unlinkEmpty_d_map [simp]:
  "unlinkEmpty_d (map rowAsDouble rl) = map rowAsDouble (unlinkEmpty rl)"
  by (induction rl) simp_all

lemma rowAsDouble_push [simp]:
  "rowAsDouble \<lparr>row = r, elements = es\<rparr> = \<lparr>row_d = r, elements_d = map cellAsDouble es\<rparr>"
  "rowAsDouble (n\<lparr>elements := es\<rparr>) = (rowAsDouble n)\<lparr>elements_d := map cellAsDouble es\<rparr>"
  by (simp_all add: rowAsDouble_def)

lemma cellAsDouble_push [simp]:
  "cellAsDouble \<lparr>col = c, value = v\<rparr> = \<lparr>col_d = c, value_d = Finite v\<rparr>"
  "cellAsDouble (e\<lparr>value := v\<rparr>) = (cellAsDouble e)\<lparr>value_d := Finite v\<rparr>"
  by (simp_all add: cellAsDouble_def)

lemma asDouble_push [simp]:
  "asDouble (m\<lparr>rowList := rl\<rparr>) = (asDouble m)\<lparr>rowList_d := map rowAsDouble rl\<rparr>"
  by (simp add: asDouble_def)

lemma setElements_d_asDouble:
  "p < length (rowList m) \<Longrightarrow>
     setElements_d (asDouble m) p (map cellAsDouble es) = asDouble (setElements m p es)"
  by (simp add: setElements_d_def setElements_def map_update)

lemma getRowNode_d_asDouble:
  "getRowNode_d (asDouble m) r create = map_sum id (map_prod asDouble id) (getRowNode m r create)"
  by (cases "rowList m")
     (auto simp add: getRowNode_d_def getRowNode_def Let_def take_map [symmetric] drop_map [symmetric])

lemma getRowNode_valid:
  "getRowNode m r create = Inr (m1, Some p) \<Longrightarrow> p < length (rowList m1)"
  using skipRows_le [of "rowList m" r]
  by (auto simp add: getRowNode_def Let_def split: if_splits)

lemma removeFromRow_d_asDouble:
  "p < length (rowList m) \<Longrightarrow>
     removeFromRow_d (asDouble m) (Some p) c = asDouble (removeFromRow m (Some p) c)"
  by (cases "elements (rowList m ! p)")
     (auto simp add: removeFromRow_d_def removeFromRow_def Let_def setElements_d_def setElements_def
       take_map [symmetric] drop_map [symmetric] map_tl map_update)

lemma insertIntoRow_d_asDouble:
  "p < length (rowList m) \<Longrightarrow>
     insertIntoRow_d (asDouble m) (Some p) c (Finite v) =
       map_sum id asDouble (insertIntoRow m (Some p) c v)"
  by (cases "elements (rowList m ! p)")
     (auto simp add: insertIntoRow_d_def insertIntoRow_def Let_def abs_lt_eps_def
       removeFromRow_d_asDouble setElements_d_def setElements_def
       take_map [symmetric] drop_map [symmetric] map_update)

lemma cleanupEmptyRows_d_asDouble:
  "cleanupEmptyRows_d (asDouble m) = asDouble (cleanupEmptyRows m)"
  by (cases "dropEmptyHead (rowList m)")
     (auto simp add: cleanupEmptyRows_d_def cleanupEmptyRows_def Let_def)


lemma insertM_d_asDouble:
  "insertM_d (asDouble m) r c (Finite v) = map_prod id asDouble (insertM m r c v)"
proof (cases "\<bar>v\<bar> < eps")
  case True
  show ?thesis
  proof (cases "getRowNode m r False")
    case (Inl e)
    with True show ?thesis
      by (simp add: insertM_d_def insertM_def abs_lt_eps_def getRowNode_d_asDouble)
  next
    case (Inr x)
    obtain m1 q where x: "x = (m1, q)" by (cases x) auto
    show ?thesis
    proof (cases q)
      case None
      with True Inr x show ?thesis
        by (simp add: insertM_d_def insertM_def abs_lt_eps_def getRowNode_d_asDouble)
    next
      case (Some p)
      have p: "p < length (rowList m1)"
        using Inr x Some by (intro getRowNode_valid [of m r False]) simp
      have l: "length (rowList (removeFromRow m1 (Some p) c)) = length (rowList m1)"
        by (simp add: removeFromRow_def setElements_def Let_def)
      have e: "elements_d (rowList_d (asDouble (removeFromRow m1 (Some p) c)) ! p) = [] \<longleftrightarrow>
               elements (rowList (removeFromRow m1 (Some p) c) ! p) = []"
        using p l by simp
      show ?thesis
        using True Inr x Some p e
        by (simp add: insertM_d_def insertM_def abs_lt_eps_def getRowNode_d_asDouble
            removeFromRow_d_asDouble cleanupEmptyRows_d_asDouble Let_def
            del: asDouble_simps asDouble_push)
    qed
  qed
next
  case False
  show ?thesis
  proof (cases "getRowNode m r True")
    case (Inl e)
    with False show ?thesis
      by (simp add: insertM_d_def insertM_def abs_lt_eps_def getRowNode_d_asDouble)
  next
    case (Inr x)
    obtain m1 q where x: "x = (m1, q)" by (cases x) auto
    have "q \<noteq> None"
      using Inr x by (auto simp add: getRowNode_def Let_def split: if_splits)
    then obtain p where p: "q = Some p" by auto
    have pl: "p < length (rowList m1)"
      using Inr x p by (intro getRowNode_valid [of m r True]) simp
    show ?thesis
      using False Inr x p pl
      by (cases "insertIntoRow m1 (Some p) c v")
         (simp_all add: insertM_d_def insertM_def abs_lt_eps_def getRowNode_d_asDouble
           insertIntoRow_d_asDouble del: asDouble_simps asDouble_push)
  qed
qed

lemma get_d_asDouble: "get_d (asDouble m) r c = map_sum id Finite (get m r c)"
  by (auto simp add: get_d_def get_def Let_def)

lemma countNonZero_d_asDouble: "countNonZero_d (asDouble m) = countNonZero m"
  by (simp add: countNonZero_d_def countNonZero_def comp_def)

text \<open>
  On finite values the code does what claim C4 says: the statement of \<open>insert_then_get\<close>,
  read on the embedding over every \<^verbatim>\<open>double\<close> value.
\<close>

lemma insert_then_get_finite:
  assumes "ascending m" "0 \<le> r" "r < rows m" "0 \<le> c" "c < cols m"
  shows "\<exists>m'. insertM_d (asDouble m) r c (Finite v) = (None, asDouble m') \<and>
           (if abs_ge_eps (Finite v) then
              get_d (asDouble m') r c = Inr (Finite v) \<and> stored m' r c \<and>
              countNonZero_d (asDouble m') =
                countNonZero_d (asDouble m) + (if stored m r c then 0 else 1)
            else
              get_d (asDouble m') r c = Inr (Finite 0) \<and> \<not> stored m' r c \<and>
              countNonZero_d (asDouble m') =
                countNonZero_d (asDouble m) - (if stored m r c then 1 else 0))"
proof -
  from insert_then_get [OF assms, of v] obtain m' where
    m': "insertM m r c v = (None, m') \<and>
           (if eps \<le> \<bar>v\<bar> then
              get m' r c = Inr v \<and> stored m' r c \<and>
              countNonZero m' = countNonZero m + (if stored m r c then 0 else 1)
            else
              get m' r c = Inr 0 \<and> \<not> stored m' r c \<and>
              countNonZero m' = countNonZero m - (if stored m r c then 1 else 0))" ..
  then have "insertM_d (asDouble m) r c (Finite v) = (None, asDouble m')"
    by (simp add: insertM_d_asDouble)
  with m' show ?thesis
    by (auto simp add: get_d_asDouble countNonZero_d_asDouble abs_ge_eps_def
        simp del: asDouble_simps asDouble_push split: if_splits)
qed

section \<open>A value that is not a number\<close>


end
